theory Spec2Isabelle
  imports Complex_Main
begin

section \<open>The activation state machine (core_voice_typing.py, StateManager)\<close>

text \<open>
  \<^verbatim>\<open>AppState\<close> is the four-valued enum of the source. A state-change callback is
  a function of the new state that acts on the rest of the program (the world \<open>'w\<close>);
  it either returns (\<open>Inr\<close>) or raises an \<^verbatim>\<open>Exception\<close> (\<open>Inl\<close>). Exceptions that
  are not subclasses of \<^verbatim>\<open>Exception\<close> are outside the model.
\<close>

datatype AppState = INACTIVE | READY | RECORDING | PAUSED

datatype exn = ZeroDivisionError | AudioReadError | TranscriptionError | OutputError | CallbackError

type_synonym 'w callback = "AppState \<Rightarrow> 'w \<Rightarrow> exn + 'w"

record 'w StateManager =
  sm_state :: AppState
  callbacks :: "'w callback list"

definition StateManager_init :: "'w StateManager" where
  "StateManager_init = \<lparr>sm_state = INACTIVE, callbacks = []\<rparr>"

definition on_state_change :: "'w StateManager \<Rightarrow> 'w callback \<Rightarrow> 'w StateManager" where
  "on_state_change sm cb = sm\<lparr>callbacks := callbacks sm @ [cb]\<rparr>"

text \<open>
  \<^verbatim>\<open>_notify\<close>: every callback is called with the current state inside
  \<^verbatim>\<open>try ... except Exception: pass\<close>; a callback that raises is skipped and the loop
  goes on with the next one.
\<close>

fun notify :: "'w callback list \<Rightarrow> AppState \<Rightarrow> 'w \<Rightarrow> exn + 'w" where
  "notify [] s w = Inr w"
| "notify (cb # cbs) s w =
     (case cb s w of
        Inl e \<Rightarrow> notify cbs s w
      | Inr w' \<Rightarrow> notify cbs s w')"

text \<open>
  \<open>set_and_notify\<close> is the body shared by the five transitions: assign the new state,
  then notify. The lock of the source serialises the transitions; here a transition is
  one atomic step.
\<close>

definition set_and_notify ::
  "AppState \<Rightarrow> 'w StateManager \<Rightarrow> 'w \<Rightarrow> exn + ('w StateManager \<times> 'w)" where
  "set_and_notify s sm w =
     (case notify (callbacks sm) s w of
        Inl e \<Rightarrow> Inl e
      | Inr w' \<Rightarrow> Inr (sm\<lparr>sm_state := s\<rparr>, w'))"

definition activate :: "'w StateManager \<Rightarrow> 'w \<Rightarrow> exn + ('w StateManager \<times> 'w)" where
  "activate sm w =
     (if sm_state sm = INACTIVE then set_and_notify READY sm w else Inr (sm, w))"

definition deactivate :: "'w StateManager \<Rightarrow> 'w \<Rightarrow> exn + ('w StateManager \<times> 'w)" where
  "deactivate sm w =
     (if sm_state sm \<in> {READY, PAUSED, RECORDING} then set_and_notify INACTIVE sm w
      else Inr (sm, w))"

definition start_recording :: "'w StateManager \<Rightarrow> 'w \<Rightarrow> exn + ('w StateManager \<times> 'w)" where
  "start_recording sm w =
     (if sm_state sm \<in> {READY, PAUSED} then set_and_notify RECORDING sm w else Inr (sm, w))"

definition pause_recording :: "'w StateManager \<Rightarrow> 'w \<Rightarrow> exn + ('w StateManager \<times> 'w)" where
  "pause_recording sm w =
     (if sm_state sm = RECORDING then set_and_notify PAUSED sm w else Inr (sm, w))"

definition stop_app :: "'w StateManager \<Rightarrow> 'w \<Rightarrow> exn + ('w StateManager \<times> 'w)" where
  "stop_app sm w = set_and_notify INACTIVE sm w"

text \<open>The five operations of the control surface, and a sequence of calls.\<close>

datatype operation = Activate | Deactivate | StartRecording | PauseRecording | StopApp

fun call :: "operation \<Rightarrow> 'w StateManager \<Rightarrow> 'w \<Rightarrow> exn + ('w StateManager \<times> 'w)" where
  "call Activate = activate"
| "call Deactivate = deactivate"
| "call StartRecording = start_recording"
| "call PauseRecording = pause_recording"
| "call StopApp = stop_app"

text \<open>
  A sequence of calls made one after the other by a caller: an exception in one call
  would end the sequence there, as it would propagate to the caller.
\<close>

fun calls :: "operation list \<Rightarrow> 'w StateManager \<Rightarrow> 'w \<Rightarrow> exn + ('w StateManager \<times> 'w)" where
  "calls [] sm w = Inr (sm, w)"
| "calls (op # ops) sm w =
     (case call op sm w of
        Inl e \<Rightarrow> Inl e
      | Inr (sm', w') \<Rightarrow> calls ops sm' w')"

subsection \<open>The transition table of the specification\<close>

text \<open>
  The table as the specification words it, for comparison with the code:
  Inactive -activate-> Ready; Ready/Paused/Recording -deactivate-> Inactive;
  Ready/Paused -startRecording-> Recording; Recording -pauseRecording-> Paused;
  any -forceStop-> Inactive. A pair that is not in the table is an illegal transition.
\<close>

fun transition_table :: "AppState \<Rightarrow> operation \<Rightarrow> AppState option" where
  "transition_table INACTIVE Activate = Some READY"
| "transition_table READY Deactivate = Some INACTIVE"
| "transition_table PAUSED Deactivate = Some INACTIVE"
| "transition_table RECORDING Deactivate = Some INACTIVE"
| "transition_table READY StartRecording = Some RECORDING"
| "transition_table PAUSED StartRecording = Some RECORDING"
| "transition_table RECORDING PauseRecording = Some PAUSED"
| "transition_table _ StopApp = Some INACTIVE"
| "transition_table _ _ = None"

text \<open>
  The destination of the last legal transition of a sequence that starts in state \<open>s\<close>:
  illegal calls are skipped, and a sequence with no legal call stays in \<open>s\<close>.
\<close>

fun last_legal_destination :: "AppState \<Rightarrow> operation list \<Rightarrow> AppState" where
  "last_legal_destination s [] = s"
| "last_legal_destination s (op # ops) =
     (case transition_table s op of
        None \<Rightarrow> last_legal_destination s ops
      | Some d \<Rightarrow> last_legal_destination d ops)"

section \<open>Audio frames and silence detection\<close>

text \<open>
  A frame is what one \<^verbatim>\<open>stream.read(chunk_size)\<close> returns, seen through
  \<^verbatim>\<open>np.frombuffer(data, dtype=np.int16)\<close>: the list of its 16-bit samples, each an
  integer between -32768 and 32767. \<^verbatim>\<open>np.abs\<close> stays in 16 bits, so the absolute
  value of -32768 wraps around to -32768. The mean is a float; it is modelled by the exact
  quotient, which decides the comparison with the integer threshold the same way (the sum
  of the samples is exact in binary64, the quotient is rounded monotonically, and a
  quotient below an integer \<open>t\<close> is below it by at least one part in the frame length).
  The mean of an empty array is nan, and every comparison with nan is false.
\<close>

type_synonym frame = "int list"

definition abs_int16 :: "int \<Rightarrow> int" where
  "abs_int16 v = (\<bar>v\<bar> + 32768) mod 65536 - 32768"

definition mean_abs :: "frame \<Rightarrow> rat option" where
  "mean_abs audio_data =
     (if audio_data = [] then None
      else Some (of_int (sum_list (map abs_int16 audio_data)) / of_int (int (length audio_data))))"

definition is_silent :: "int \<Rightarrow> frame \<Rightarrow> bool" where
  "is_silent silence_threshold audio_data =
     (case mean_abs audio_data of
        None \<Rightarrow> False
      | Some m \<Rightarrow> m < of_int silence_threshold)"

text \<open>
  Python's \<^verbatim>\<open>int(x)\<close> on a float truncates towards zero. \<^verbatim>\<open>xs[:j]\<close> and
  \<^verbatim>\<open>xs[i:]\<close> clamp their bound to the list, a negative bound counting from the end;
  the bound \<^verbatim>\<open>-0\<close> is 0, so \<^verbatim>\<open>xs[:-0]\<close> is empty and \<^verbatim>\<open>xs[-0:]\<close> is the whole list.
\<close>

definition py_int :: "rat \<Rightarrow> int" where
  "py_int x = (if 0 \<le> x then \<lfloor>x\<rfloor> else \<lceil>x\<rceil>)"

definition slice_bound :: "int \<Rightarrow> nat \<Rightarrow> nat" where
  "slice_bound i n = (if i < 0 then nat (max 0 (int n + i)) else min (nat i) n)"

definition slice_upto :: "'a list \<Rightarrow> int \<Rightarrow> 'a list" where
  "slice_upto xs j = take (slice_bound j (length xs)) xs"

definition slice_from :: "'a list \<Rightarrow> int \<Rightarrow> 'a list" where
  "slice_from xs i = drop (slice_bound i (length xs)) xs"

section \<open>The workers and what they share\<close>

text \<open>
  A worker thread is running, has returned from its \<^verbatim>\<open>run\<close>, or has died of an
  exception that left \<^verbatim>\<open>run\<close>. The \<^verbatim>\<open>threading.Event\<close> flags are booleans. The
  locals \<^verbatim>\<open>frames\<close> and \<^verbatim>\<open>silent_chunks\<close> of \<^verbatim>\<open>Recorder.run\<close> are fields of the
  recorder, since they live as long as its loop.
\<close>

datatype thread = Running | Finished | Died exn

record Recorder =
  sample_rate :: int
  chunk_size :: int
  silence_threshold :: int
  required_silent_chunks :: int
  rec_terminate :: bool
  rec_recording :: bool
  frames :: "frame list"
  silent_chunks :: int
  rec_thread :: thread

record Transcriber =
  tr_terminate :: bool
  process_allowed :: bool
  tr_thread :: thread

text \<open>
  The file \<^verbatim>\<open>segment_<t>.wav\<close> of the recorder's temporary directory is identified by
  \<open>t\<close>, the clock reading in whole seconds that \<^verbatim>\<open>f"{time.time():.0f}"\<close> prints. Its
  content is the list of the frames written to it. \<open>put_log\<close> is a history variable: the
  content each file had when its path was put on the queue. Nothing reads it.
\<close>

type_synonym path = nat

record World =
  recorder :: Recorder
  transcriber :: Transcriber
  audio_queue :: "path list"
  files :: "path \<rightharpoonup> frame list"
  clock :: nat
  typed :: "string list"
  put_log :: "frame list list"

subsection \<open>Recorder\<close>

definition Recorder_handle_state_change :: "AppState \<Rightarrow> Recorder \<Rightarrow> Recorder" where
  "Recorder_handle_state_change s r =
     (let r1 = (if s = RECORDING then r\<lparr>rec_recording := True\<rparr>
                else r\<lparr>rec_recording := False\<rparr>)
      in if s = INACTIVE then r1\<lparr>rec_terminate := True\<rparr> else r1)"

definition Recorder_callback :: "World callback" where
  "Recorder_callback s w = Inr (w\<lparr>recorder := Recorder_handle_state_change s (recorder w)\<rparr>)"

text \<open>
  \<^verbatim>\<open>Recorder.__init__\<close>: the silence duration is a float, modelled by a rational and
  exact arithmetic. The division raises when the chunk size is 0. The constructor
  registers the recorder's callback and starts the thread; opening the audio stream at
  the head of \<^verbatim>\<open>run\<close> is taken to succeed.
\<close>

definition Recorder_init ::
  "World StateManager \<Rightarrow> int \<Rightarrow> int \<Rightarrow> int \<Rightarrow> rat \<Rightarrow> exn + (World StateManager \<times> Recorder)" where
  "Recorder_init state_manager sample_rate' chunk_size' silence_threshold' silence_duration =
     (if chunk_size' = 0 then Inl ZeroDivisionError
      else Inr (on_state_change state_manager Recorder_callback,
        \<lparr>sample_rate = sample_rate',
         chunk_size = chunk_size',
         silence_threshold = silence_threshold',
         required_silent_chunks =
           py_int (silence_duration * of_int sample_rate' / of_int chunk_size'),
         rec_terminate = False,
         rec_recording = False,
         frames = [],
         silent_chunks = 0,
         rec_thread = Running\<rparr>))"

text \<open>
  \<^verbatim>\<open>file_path = self._write_wav(segment); self.audio_queue.put(file_path)\<close>: the file
  named after the clock is opened for writing (an older file of that name is replaced),
  and its path is put at the end of the queue.
\<close>

definition write_wav :: "frame list \<Rightarrow> World \<Rightarrow> path \<times> World" where
  "write_wav fr w = (clock w, w\<lparr>files := (files w)(clock w \<mapsto> fr)\<rparr>)"

definition enqueue_segment :: "frame list \<Rightarrow> World \<Rightarrow> World" where
  "enqueue_segment fr w =
     (case write_wav fr w of
        (file_path, w1) \<Rightarrow>
          w1\<lparr>audio_queue := audio_queue w1 @ [file_path], put_log := put_log w1 @ [fr]\<rparr>)"

text \<open>
  One iteration of the loop of \<^verbatim>\<open>Recorder.run\<close>, given what \<^verbatim>\<open>stream.read\<close> returns
  or raises if the iteration reads. The iteration that finds \<^verbatim>\<open>_terminate\<close> set leaves
  the loop, runs the final flush and ends the thread. An exception of the read is not
  caught anywhere in \<^verbatim>\<open>run\<close>: it ends the thread there. The two flags are read only at
  the top of the iteration and the body does not depend on them, so taking the iteration
  as one atomic step loses no behaviour: a transition during the read acts as one after
  the iteration.
\<close>

definition Recorder_run :: "exn + frame \<Rightarrow> World \<Rightarrow> World" where
  "Recorder_run rd w =
     (let r = recorder w in
      if rec_thread r \<noteq> Running then w
      else if rec_terminate r then
        (let w1 = (if frames r \<noteq> [] then enqueue_segment (frames r) w else w)
         in w1\<lparr>recorder := r\<lparr>rec_thread := Finished\<rparr>\<rparr>)
      else if \<not> rec_recording r then w
      else
        (case rd of
           Inl e \<Rightarrow> w\<lparr>recorder := r\<lparr>rec_thread := Died e\<rparr>\<rparr>
         | Inr data \<Rightarrow>
            (let fr = frames r @ [data];
                 sc = (if is_silent (silence_threshold r) data then silent_chunks r + 1 else 0)
             in if sc \<ge> required_silent_chunks r \<and> int (length fr) > sc then
                  (let segment = slice_upto fr (- sc);
                       w1 = (if segment \<noteq> [] then enqueue_segment segment w else w)
                   in w1\<lparr>recorder := r\<lparr>frames := slice_from fr (- sc), silent_chunks := sc\<rparr>\<rparr>)
                else w\<lparr>recorder := r\<lparr>frames := fr, silent_chunks := sc\<rparr>\<rparr>)))"

subsection \<open>Transcriber\<close>

definition Transcriber_handle_state_change :: "AppState \<Rightarrow> Transcriber \<Rightarrow> Transcriber" where
  "Transcriber_handle_state_change s t =
     (let t1 = (if s = RECORDING then t\<lparr>process_allowed := True\<rparr>
                else t\<lparr>process_allowed := False\<rparr>)
      in if s = INACTIVE then t1\<lparr>tr_terminate := True\<rparr> else t1)"

definition Transcriber_callback :: "World callback" where
  "Transcriber_callback s w =
     Inr (w\<lparr>transcriber := Transcriber_handle_state_change s (transcriber w)\<rparr>)"

definition Transcriber_init ::
  "World StateManager \<Rightarrow> World StateManager \<times> Transcriber" where
  "Transcriber_init state_manager =
     (on_state_change state_manager Transcriber_callback,
      \<lparr>tr_terminate = False, process_allowed = False, tr_thread = Running\<rparr>)"

text \<open>\<^verbatim>\<open>str.strip()\<close> on the one-byte characters: the ASCII white space.\<close>

definition is_space :: "char \<Rightarrow> bool" where
  "is_space c = (let n = (of_char c :: nat) in (9 \<le> n \<and> n \<le> 13) \<or> (28 \<le> n \<and> n \<le> 32))"

definition strip :: "string \<Rightarrow> string" where
  "strip s = rev (dropWhile is_space (rev (dropWhile is_space s)))"

text \<open>
  One iteration of the loop of \<^verbatim>\<open>Transcriber.run\<close>. \<open>res\<close> is what
  \<^verbatim>\<open>self.model.transcribe(...)["text"]\<close> returns or raises if it is called, \<open>out\<close> is
  the exception \<^verbatim>\<open>output_callback\<close> raises if it is called and raises. The
  \<^verbatim>\<open>try\<close> has a \<^verbatim>\<open>finally\<close> and no \<^verbatim>\<open>except\<close>: the file is removed (a missing file
  is tolerated), then a pending exception leaves \<^verbatim>\<open>run\<close> and ends the thread.
\<close>

definition Transcriber_run :: "exn + string \<Rightarrow> exn option \<Rightarrow> World \<Rightarrow> World" where
  "Transcriber_run res out w =
     (let t = transcriber w in
      if tr_thread t \<noteq> Running then w
      else if tr_terminate t then w\<lparr>transcriber := t\<lparr>tr_thread := Finished\<rparr>\<rparr>
      else if \<not> process_allowed t then w
      else
        (case audio_queue w of
           [] \<Rightarrow> w
         | audio_file # rest \<Rightarrow>
            (let w1 = w\<lparr>audio_queue := rest\<rparr>;
                 (w2, pending) =
                   (case res of
                      Inl e \<Rightarrow> (w1, Some e)
                    | Inr result_text \<Rightarrow>
                       (let text = strip result_text
                        in if text \<noteq> [] then (w1\<lparr>typed := typed w1 @ [text]\<rparr>, out)
                           else (w1, None)));
                 w3 = w2\<lparr>files := (files w2)(audio_file := None)\<rparr>
             in case pending of
                  None \<Rightarrow> w3
                | Some e \<Rightarrow> w3\<lparr>transcriber := t\<lparr>tr_thread := Died e\<rparr>\<rparr>)))"

subsection \<open>The engine and its schedules\<close>

text \<open>
  \<open>engine_init\<close> is the wiring of \<^verbatim>\<open>VoiceTypingEngine.__init__\<close> with the recorder's
  configuration as parameters: an empty queue, the recorder, then the transcriber, each
  registering its callback in that order. \<^verbatim>\<open>VoiceTypingEngine.__init__\<close> itself passes
  no configuration, so the recorder takes the defaults of its constructor. Loading the
  model in the transcriber's constructor is taken to succeed. The keyboard listener and
  the GUI register callbacks of their own after these two; they act on their own state
  only and \<open>notify\<close> swallows what they raise, so they are left out of
  \<open>engine_callbacks\<close>.
\<close>

definition engine_init ::
  "World StateManager \<Rightarrow> int \<Rightarrow> int \<Rightarrow> int \<Rightarrow> rat \<Rightarrow> nat \<Rightarrow> exn + (World StateManager \<times> World)" where
  "engine_init state_manager sample_rate' chunk_size' silence_threshold' silence_duration now =
     (case Recorder_init state_manager sample_rate' chunk_size' silence_threshold' silence_duration of
        Inl e \<Rightarrow> Inl e
      | Inr (sm1, r) \<Rightarrow>
         (case Transcriber_init sm1 of
            (sm2, t) \<Rightarrow>
              Inr (sm2, \<lparr>recorder = r, transcriber = t, audio_queue = [], files = Map.empty,
                         clock = now, typed = [], put_log = []\<rparr>)))"

definition VoiceTypingEngine_init ::
  "World StateManager \<Rightarrow> nat \<Rightarrow> exn + (World StateManager \<times> World)" where
  "VoiceTypingEngine_init state_manager now = engine_init state_manager 48000 1024 300 1 now"

definition engine_callbacks :: "World callback list" where
  "engine_callbacks = [Recorder_callback, Transcriber_callback]"

text \<open>
  A schedule is a list of events: a call of the control surface (\<^verbatim>\<open>shutdown\<close> is
  \<open>Call StopApp\<close>), one iteration of the recorder's loop, one iteration of the
  transcriber's loop, or the clock advancing. In \<open>step\<close> an exception of a call would
  go to the caller and leave the workers alone; \<open>call\<close> never raises one.
\<close>

datatype event =
    Call operation
  | RecorderStep "exn + frame"
  | TranscriberStep "exn + string" "exn option"
  | Tick nat

fun step :: "event \<Rightarrow> World StateManager \<times> World \<Rightarrow> World StateManager \<times> World" where
  "step (Call op) (sm, w) = (case call op sm w of Inl e \<Rightarrow> (sm, w) | Inr s' \<Rightarrow> s')"
| "step (RecorderStep rd) (sm, w) = (sm, Recorder_run rd w)"
| "step (TranscriberStep res out) (sm, w) = (sm, Transcriber_run res out w)"
| "step (Tick n) (sm, w) = (sm, w\<lparr>clock := clock w + n\<rparr>)"

fun execute :: "event list \<Rightarrow> World StateManager \<times> World \<Rightarrow> World StateManager \<times> World" where
  "execute [] s = s"
| "execute (e # es) s = execute es (step e s)"

definition reads :: "frame list \<Rightarrow> event list" where
  "reads ds = map (\<lambda>d. RecorderStep (Inr d)) ds"


section \<open>State machine: theorems\<close>

lemma notify_returns: "\<exists>w'. notify cbs s w = Inr w'"
  by (induction cbs arbitrary: w) (auto split: sum.splits)

lemma set_and_notify_returns:
  "\<exists>w'. set_and_notify s sm w = Inr (sm\<lparr>sm_state := s\<rparr>, w')"
  using notify_returns [of "callbacks sm" s w] by (auto simp: set_and_notify_def)

lemma call_table:
  "\<exists>w'. call op sm w =
     Inr (case transition_table (sm_state sm) op of
            None \<Rightarrow> (sm, w)
          | Some d \<Rightarrow> (sm\<lparr>sm_state := d\<rparr>, w'))"
  using set_and_notify_returns [of READY sm w] set_and_notify_returns [of INACTIVE sm w]
    set_and_notify_returns [of RECORDING sm w] set_and_notify_returns [of PAUSED sm w]
  by (cases op; cases "sm_state sm")
     (auto simp: activate_def deactivate_def start_recording_def pause_recording_def
        stop_app_def)

lemma calls_table:
  "\<exists>sm' w'. calls ops sm w = Inr (sm', w') \<and>
     sm_state sm' = last_legal_destination (sm_state sm) ops"
proof (induction ops arbitrary: sm w)
  case Nil
  show ?case by simp
next
  case (Cons op ops)
  obtain w1 where c: "call op sm w =
     Inr (case transition_table (sm_state sm) op of
            None \<Rightarrow> (sm, w)
          | Some d \<Rightarrow> (sm\<lparr>sm_state := d\<rparr>, w1))"
    using call_table [of op sm w] by blast
  show ?case
  proof (cases "transition_table (sm_state sm) op")
    case None
    with c Cons.IH [of sm w] show ?thesis by simp
  next
    case (Some d)
    with c Cons.IH [of "sm\<lparr>sm_state := d\<rparr>" w1] show ?thesis by simp
  qed
qed

lemma calls_append:
  "calls (xs @ ys) sm w =
     (case calls xs sm w of Inl e \<Rightarrow> Inl e | Inr (sm', w') \<Rightarrow> calls ys sm' w')"
  by (induction xs arbitrary: sm w) (auto split: sum.splits)

lemma last_legal_destination_append:
  "last_legal_destination s (xs @ ys) = last_legal_destination (last_legal_destination s xs) ys"
  by (induction xs arbitrary: s) (auto split: option.splits)

lemma last_legal_decompose:
  "(\<forall>op \<in> set ops. transition_table s op = None) \<and> last_legal_destination s ops = s
   \<or> (\<exists>pre op post. ops = pre @ op # post
        \<and> transition_table (last_legal_destination s pre) op = Some (last_legal_destination s ops)
        \<and> (\<forall>q \<in> set post. transition_table (last_legal_destination s ops) q = None))"
proof (induction ops rule: rev_induct)
  case Nil
  show ?case by simp
next
  case (snoc x xs)
  let ?m = "last_legal_destination s xs"
  show ?case
  proof (cases "transition_table ?m x")
    case (Some d)
    then have "xs @ [x] = xs @ x # [] \<and>
        transition_table (last_legal_destination s xs) x = Some (last_legal_destination s (xs @ [x]))
        \<and> (\<forall>q \<in> set []. transition_table (last_legal_destination s (xs @ [x])) q = None)"
      by (simp add: last_legal_destination_append)
    then show ?thesis by blast
  next
    case None
    then have same: "last_legal_destination s (xs @ [x]) = ?m"
      by (simp add: last_legal_destination_append)
    from snoc.IH show ?thesis
    proof
      assume a: "(\<forall>op \<in> set xs. transition_table s op = None) \<and> ?m = s"
      with None same show ?thesis by auto
    next
      assume "\<exists>pre op post. xs = pre @ op # post
        \<and> transition_table (last_legal_destination s pre) op = Some ?m
        \<and> (\<forall>q \<in> set post. transition_table ?m q = None)"
      then obtain pre op post where p: "xs = pre @ op # post"
        "transition_table (last_legal_destination s pre) op = Some ?m"
        "\<forall>q \<in> set post. transition_table ?m q = None" by blast
      have "xs @ [x] = pre @ op # (post @ [x])" using p(1) by simp
      moreover have "\<forall>q \<in> set (post @ [x]). transition_table ?m q = None"
        using p(3) None by simp
      ultimately show ?thesis using p(2) same by metis
    qed
  qed
qed

text \<open>
  Claim C1. From the initial state Inactive, every finite sequence of calls of
  activate, deactivate, start_recording, pause_recording and stop_app returns, with
  callbacks of any kind registered (raising ones too). The state it ends in is one of
  the four states and is the destination of the last legal transition of the sequence
  according to the transition table: either no call of the sequence was legal and the
  state is still Inactive, or the sequence splits into a prefix, a call that is legal in
  the state the prefix leads to and whose destination is the final state, and a rest of
  calls that are all illegal there. A call that the table does not list returns the
  state manager and the world as they were.
\<close>

theorem state_is_last_legal_destination:
  "(\<exists>sm' w'. calls ops (StateManager_init\<lparr>callbacks := cbs\<rparr>) w = Inr (sm', w')
      \<and> sm_state sm' \<in> {INACTIVE, READY, RECORDING, PAUSED}
      \<and> sm_state sm' = last_legal_destination INACTIVE ops
      \<and> ((\<forall>op \<in> set ops. transition_table INACTIVE op = None) \<and> sm_state sm' = INACTIVE
         \<or> (\<exists>pre op post sm1 w1. ops = pre @ op # post
              \<and> calls pre (StateManager_init\<lparr>callbacks := cbs\<rparr>) w = Inr (sm1, w1)
              \<and> transition_table (sm_state sm1) op = Some (sm_state sm')
              \<and> (\<forall>q \<in> set post. transition_table (sm_state sm') q = None))))
   \<and> (\<forall>sm op v. transition_table (sm_state sm) op = None \<longrightarrow> call op sm (v :: 'w) = Inr (sm, v))"
proof (intro conjI allI impI)
  let ?sm0 = "StateManager_init\<lparr>callbacks := cbs\<rparr>"
  have s0: "sm_state ?sm0 = INACTIVE" by (simp add: StateManager_init_def)
  obtain sm' w' where r: "calls ops ?sm0 w = Inr (sm', w')"
    "sm_state sm' = last_legal_destination INACTIVE ops"
    using calls_table [of ops ?sm0 w] s0 by auto
  have cases4: "sm_state sm' \<in> {INACTIVE, READY, RECORDING, PAUSED}"
    by (cases "sm_state sm'") simp_all
  from last_legal_decompose [of ops INACTIVE]
  have "(\<forall>op \<in> set ops. transition_table INACTIVE op = None) \<and> sm_state sm' = INACTIVE
         \<or> (\<exists>pre op post sm1 w1. ops = pre @ op # post
              \<and> calls pre ?sm0 w = Inr (sm1, w1)
              \<and> transition_table (sm_state sm1) op = Some (sm_state sm')
              \<and> (\<forall>q \<in> set post. transition_table (sm_state sm') q = None))"
  proof
    assume "(\<forall>op \<in> set ops. transition_table INACTIVE op = None)
      \<and> last_legal_destination INACTIVE ops = INACTIVE"
    with r(2) show ?thesis by simp
  next
    assume "\<exists>pre op post. ops = pre @ op # post
        \<and> transition_table (last_legal_destination INACTIVE pre) op
            = Some (last_legal_destination INACTIVE ops)
        \<and> (\<forall>q \<in> set post. transition_table (last_legal_destination INACTIVE ops) q = None)"
    then obtain pre op post where p: "ops = pre @ op # post"
      "transition_table (last_legal_destination INACTIVE pre) op
         = Some (last_legal_destination INACTIVE ops)"
      "\<forall>q \<in> set post. transition_table (last_legal_destination INACTIVE ops) q = None"
      by blast
    obtain sm1 w1 where q: "calls pre ?sm0 w = Inr (sm1, w1)"
      "sm_state sm1 = last_legal_destination INACTIVE pre"
      using calls_table [of pre ?sm0 w] s0 by auto
    from p q r(2) show ?thesis by metis
  qed
  with r cases4 show "\<exists>sm' w'. calls ops ?sm0 w = Inr (sm', w')
      \<and> sm_state sm' \<in> {INACTIVE, READY, RECORDING, PAUSED}
      \<and> sm_state sm' = last_legal_destination INACTIVE ops
      \<and> ((\<forall>op \<in> set ops. transition_table INACTIVE op = None) \<and> sm_state sm' = INACTIVE
         \<or> (\<exists>pre op post sm1 w1. ops = pre @ op # post
              \<and> calls pre ?sm0 w = Inr (sm1, w1)
              \<and> transition_table (sm_state sm1) op = Some (sm_state sm')
              \<and> (\<forall>q \<in> set post. transition_table (sm_state sm') q = None)))"
    by blast
next
  fix sm :: "'w StateManager" and op and v :: 'w
  assume "transition_table (sm_state sm) op = None"
  then show "call op sm v = Inr (sm, v)"
    using call_table [of op sm v] by simp
qed

theorem state_is_last_legal_destination_witness:
  "(\<exists>sm' w'. calls [Activate, PauseRecording, StartRecording, PauseRecording, Activate]
        (StateManager_init\<lparr>callbacks := [\<lambda>s w. Inl CallbackError, \<lambda>s w. Inr (Suc w)]\<rparr>) (0::nat)
          = Inr (sm', w')
      \<and> sm_state sm' = PAUSED)
   \<and> transition_table READY PauseRecording = None
   \<and> call PauseRecording \<lparr>sm_state = READY, callbacks = []\<rparr> (0::nat)
        = Inr (\<lparr>sm_state = READY, callbacks = []\<rparr>, 0)"
proof -
  note t = state_is_last_legal_destination
    [of "[Activate, PauseRecording, StartRecording, PauseRecording, Activate]"
        "[\<lambda>s w. Inl CallbackError, \<lambda>s w. Inr (Suc w)]" "0::nat"]
  have illegal: "transition_table (sm_state \<lparr>sm_state = READY, callbacks = []\<rparr>) PauseRecording = None"
    by simp
  have "call PauseRecording \<lparr>sm_state = READY, callbacks = []\<rparr> (0::nat)
        = Inr (\<lparr>sm_state = READY, callbacks = []\<rparr>, 0)"
    by (rule t [THEN conjunct2, rule_format, OF illegal])
  moreover have "last_legal_destination INACTIVE
        [Activate, PauseRecording, StartRecording, PauseRecording, Activate] = PAUSED"
    by simp
  with t have "\<exists>sm' w'. calls [Activate, PauseRecording, StartRecording, PauseRecording, Activate]
        (StateManager_init\<lparr>callbacks := [\<lambda>s w. Inl CallbackError, \<lambda>s w. Inr (Suc w)]\<rparr>) (0::nat)
          = Inr (sm', w')
      \<and> sm_state sm' = PAUSED"
    by metis
  ultimately show ?thesis by simp
qed

section \<open>Recorder configuration: theorems\<close>







section \<open>The engine: basic facts\<close>

lemma notify_engine_callbacks:
  "notify engine_callbacks s w =
     Inr (w\<lparr>recorder := Recorder_handle_state_change s (recorder w),
            transcriber := Transcriber_handle_state_change s (transcriber w)\<rparr>)"
  by (simp add: engine_callbacks_def Recorder_callback_def Transcriber_callback_def)

lemma step_call_engine:
  "callbacks sm = engine_callbacks \<Longrightarrow>
   step (Call op) (sm, w) =
     (case transition_table (sm_state sm) op of
        None \<Rightarrow> (sm, w)
      | Some d \<Rightarrow>
          (sm\<lparr>sm_state := d\<rparr>,
           w\<lparr>recorder := Recorder_handle_state_change d (recorder w),
             transcriber := Transcriber_handle_state_change d (transcriber w)\<rparr>))"
  by (cases op; cases "sm_state sm")
     (simp_all add: activate_def deactivate_def start_recording_def pause_recording_def
        stop_app_def set_and_notify_def notify_engine_callbacks)

lemma engine_init_result:
  "cs \<noteq> 0 \<Longrightarrow>
   engine_init StateManager_init sr cs thr dur now =
     Inr (\<lparr>sm_state = INACTIVE, callbacks = engine_callbacks\<rparr>,
          \<lparr>recorder =
             \<lparr>sample_rate = sr, chunk_size = cs, silence_threshold = thr,
              required_silent_chunks = py_int (dur * of_int sr / of_int cs),
              rec_terminate = False, rec_recording = False, frames = [],
              silent_chunks = 0, rec_thread = Running\<rparr>,
           transcriber = \<lparr>tr_terminate = False, process_allowed = False, tr_thread = Running\<rparr>,
           audio_queue = [], files = Map.empty, clock = now, typed = [], put_log = []\<rparr>)"
  by (simp add: engine_init_def Recorder_init_def Transcriber_init_def on_state_change_def
      StateManager_init_def engine_callbacks_def)

lemma execute_append: "execute (xs @ ys) s = execute ys (execute xs s)"
  by (induction xs arbitrary: s) simp_all

lemma step_keeps_callbacks: "callbacks (fst (step e (sm, w))) = callbacks sm"
proof (cases e)
  case (Call op)
  obtain w' where "call op sm w =
     Inr (case transition_table (sm_state sm) op of
            None \<Rightarrow> (sm, w)
          | Some d \<Rightarrow> (sm\<lparr>sm_state := d\<rparr>, w'))"
    using call_table [of op sm w] by blast
  with Call show ?thesis by (simp split: option.splits)
qed simp_all

lemma execute_keeps_callbacks: "callbacks (fst (execute evs s)) = callbacks (fst s)"
proof (induction evs arbitrary: s)
  case Nil
  show ?case by simp
next
  case (Cons e evs)
  obtain sm w where s: "s = (sm, w)" by (cases s)
  have "callbacks (fst (step e s)) = callbacks (fst s)"
    using step_keeps_callbacks [of e sm w] s by simp
  with Cons.IH [of "step e s"] show ?case by simp
qed

section \<open>What each worker step touches\<close>

lemma Transcriber_run_frame:
  "recorder (Transcriber_run res out w) = recorder w"
  "put_log (Transcriber_run res out w) = put_log w"
  "clock (Transcriber_run res out w) = clock w"
  by (simp_all add: Transcriber_run_def Let_def split: list.splits sum.splits option.splits)

lemma Recorder_run_frame:
  "transcriber (Recorder_run rd w) = transcriber w"
  "typed (Recorder_run rd w) = typed w"
  "clock (Recorder_run rd w) = clock w"
  by (simp_all add: Recorder_run_def Let_def enqueue_segment_def write_wav_def
      split: sum.splits)

lemma Recorder_run_dead:
  "rec_thread (recorder w) \<noteq> Running \<Longrightarrow> Recorder_run rd w = w"
  by (simp add: Recorder_run_def)

lemma Transcriber_run_dead:
  "tr_thread (transcriber w) \<noteq> Running \<Longrightarrow> Transcriber_run res out w = w"
  by (simp add: Transcriber_run_def)

lemma Recorder_run_queue:
  "audio_queue (Recorder_run rd w) = audio_queue w \<and> put_log (Recorder_run rd w) = put_log w
     \<and> files (Recorder_run rd w) = files w
   \<or> (\<exists>seg. seg \<noteq> []
        \<and> audio_queue (Recorder_run rd w) = audio_queue w @ [clock w]
        \<and> put_log (Recorder_run rd w) = put_log w @ [seg]
        \<and> files (Recorder_run rd w) = (files w)(clock w \<mapsto> seg))"
  by (simp add: Recorder_run_def Let_def enqueue_segment_def write_wav_def split: sum.splits)

lemma step_dead_recorder:
  assumes "callbacks sm = engine_callbacks" "rec_thread (recorder w) \<noteq> Running"
  shows "rec_thread (recorder (snd (step e (sm, w)))) = rec_thread (recorder w)
       \<and> frames (recorder (snd (step e (sm, w)))) = frames (recorder w)
       \<and> silent_chunks (recorder (snd (step e (sm, w)))) = silent_chunks (recorder w)
       \<and> put_log (snd (step e (sm, w))) = put_log w"
proof (cases e)
  case (Call op)
  show ?thesis
    unfolding Call step_call_engine [OF assms(1)]
    by (simp add: Recorder_handle_state_change_def Let_def split: option.splits)
next
  case (RecorderStep rd)
  with assms show ?thesis by (simp add: Recorder_run_dead)
next
  case (TranscriberStep res out)
  then show ?thesis by (simp add: Transcriber_run_frame)
next
  case (Tick n)
  then show ?thesis by simp
qed

lemma execute_dead_recorder:
  assumes "callbacks (fst s) = engine_callbacks" "rec_thread (recorder (snd s)) \<noteq> Running"
  shows "rec_thread (recorder (snd (execute evs s))) = rec_thread (recorder (snd s))
       \<and> frames (recorder (snd (execute evs s))) = frames (recorder (snd s))
       \<and> silent_chunks (recorder (snd (execute evs s))) = silent_chunks (recorder (snd s))
       \<and> put_log (snd (execute evs s)) = put_log (snd s)"
  using assms
proof (induction evs arbitrary: s)
  case Nil
  show ?case by simp
next
  case (Cons e evs)
  obtain sm w where s: "s = (sm, w)" by (cases s)
  from Cons.prems s have p: "callbacks sm = engine_callbacks" "rec_thread (recorder w) \<noteq> Running"
    by simp_all
  note d = step_dead_recorder [OF p, of e]
  have c: "callbacks (fst (step e s)) = engine_callbacks"
    using step_keeps_callbacks [of e sm w] p(1) s by simp
  have r: "rec_thread (recorder (snd (step e s))) \<noteq> Running"
    using d p(2) s by simp
  from Cons.IH [OF c r] d s show ?case by simp
qed

lemma step_dead_transcriber:
  assumes "callbacks sm = engine_callbacks" "tr_thread (transcriber w) \<noteq> Running"
  shows "tr_thread (transcriber (snd (step e (sm, w)))) = tr_thread (transcriber w)
       \<and> typed (snd (step e (sm, w))) = typed w
       \<and> (\<exists>new. audio_queue (snd (step e (sm, w))) = audio_queue w @ new)"
proof (cases e)
  case (Call op)
  show ?thesis
    unfolding Call step_call_engine [OF assms(1)]
    by (simp add: Transcriber_handle_state_change_def Let_def split: option.splits)
next
  case (RecorderStep rd)
  with Recorder_run_queue [of rd w] show ?thesis
    by (auto simp: Recorder_run_frame)
next
  case (TranscriberStep res out)
  with assms show ?thesis by (simp add: Transcriber_run_dead)
next
  case (Tick n)
  then show ?thesis by simp
qed

lemma execute_dead_transcriber:
  assumes "callbacks (fst s) = engine_callbacks" "tr_thread (transcriber (snd s)) \<noteq> Running"
  shows "tr_thread (transcriber (snd (execute evs s))) = tr_thread (transcriber (snd s))
       \<and> typed (snd (execute evs s)) = typed (snd s)
       \<and> (\<exists>new. audio_queue (snd (execute evs s)) = audio_queue (snd s) @ new)"
  using assms
proof (induction evs arbitrary: s)
  case Nil
  show ?case by simp
next
  case (Cons e evs)
  obtain sm w where s: "s = (sm, w)" by (cases s)
  from Cons.prems s have p: "callbacks sm = engine_callbacks"
    "tr_thread (transcriber w) \<noteq> Running"
    by simp_all
  note d = step_dead_transcriber [OF p, of e]
  have c: "callbacks (fst (step e s)) = engine_callbacks"
    using step_keeps_callbacks [of e sm w] p(1) s by simp
  have r: "tr_thread (transcriber (snd (step e s))) \<noteq> Running"
    using d p(2) s by simp
  from d obtain new1 where n1: "audio_queue (snd (step e s)) = audio_queue (snd s) @ new1"
    using s by auto
  from Cons.IH [OF c r] obtain new2 where
    n2: "audio_queue (snd (execute evs (step e s))) = audio_queue (snd (step e s)) @ new2"
    by blast
  from n1 n2 have "audio_queue (snd (execute (e # evs) s)) = audio_queue (snd s) @ (new1 @ new2)"
    by simp
  then have "\<exists>new. audio_queue (snd (execute (e # evs) s)) = audio_queue (snd s) @ new"
    by blast
  with Cons.IH [OF c r] d s show ?case by simp
qed

section \<open>The recorder while it captures\<close>

lemma slice_bound_neg: "0 < k \<Longrightarrow> slice_bound (- k) n = n - nat k"
  unfolding slice_bound_def by (simp add: max_def) linarith

lemma slice_upto_neg:
  "0 < k \<Longrightarrow> slice_upto xs (- k) = take (length xs - nat k) xs"
  by (simp add: slice_upto_def slice_bound_neg)

lemma slice_from_neg:
  "0 < k \<Longrightarrow> slice_from xs (- k) = drop (length xs - nat k) xs"
  by (simp add: slice_from_def slice_bound_neg)


lemma Recorder_run_no_split:
  assumes "rec_thread (recorder w) = Running" "\<not> rec_terminate (recorder w)"
    "rec_recording (recorder w)"
    "sc = (if is_silent (silence_threshold (recorder w)) d
           then silent_chunks (recorder w) + 1 else 0)"
    "sc < required_silent_chunks (recorder w) \<or> int (length (frames (recorder w))) + 1 \<le> sc"
  shows "Recorder_run (Inr d) w =
     w\<lparr>recorder := (recorder w)\<lparr>frames := frames (recorder w) @ [d], silent_chunks := sc\<rparr>\<rparr>"
  using assms by (auto simp: Recorder_run_def Let_def)

lemma Recorder_run_split:
  assumes "rec_thread (recorder w) = Running" "\<not> rec_terminate (recorder w)"
    "rec_recording (recorder w)"
    "sc = (if is_silent (silence_threshold (recorder w)) d
           then silent_chunks (recorder w) + 1 else 0)"
    "required_silent_chunks (recorder w) \<le> sc" "0 < sc"
    "sc < int (length (frames (recorder w))) + 1"
  shows "Recorder_run (Inr d) w =
     (enqueue_segment (take (length (frames (recorder w)) + 1 - nat sc) (frames (recorder w) @ [d])) w)
       \<lparr>recorder := (recorder w)
          \<lparr>frames := drop (length (frames (recorder w)) + 1 - nat sc) (frames (recorder w) @ [d]),
           silent_chunks := sc\<rparr>\<rparr>"
proof -
  let ?fr = "frames (recorder w) @ [d]"
  have n: "length ?fr - nat sc = length (frames (recorder w)) + 1 - nat sc" by simp
  have pos: "0 < length (frames (recorder w)) + 1 - nat sc" using assms(6,7) by linarith
  have ne: "take (length (frames (recorder w)) + 1 - nat sc) ?fr \<noteq> []"
    using pos by (cases "frames (recorder w)") auto
  have u: "slice_upto ?fr (- sc) = take (length (frames (recorder w)) + 1 - nat sc) ?fr"
    using slice_upto_neg [OF assms(6), of ?fr] n by simp
  have f: "slice_from ?fr (- sc) = drop (length (frames (recorder w)) + 1 - nat sc) ?fr"
    using slice_from_neg [OF assms(6), of ?fr] n by simp
  have cond: "sc \<ge> required_silent_chunks (recorder w) \<and> int (length ?fr) > sc"
    using assms(5,7) by simp
  show ?thesis
    unfolding Recorder_run_def Let_def
    using assms(1-3) cond ne
    by (simp add: u f assms(4) [symmetric] enqueue_segment_def write_wav_def
        del: take_append drop_append)
qed

lemma reads_Nil: "reads [] = []"
  by (simp add: reads_def)

lemma reads_Cons: "reads (d # ds) = RecorderStep (Inr d) # reads ds"
  by (simp add: reads_def)

lemma reads_append: "reads (xs @ ys) = reads xs @ reads ys"
  by (simp add: reads_def)

lemma reads_speech:
  assumes "rec_thread (recorder w) = Running" "\<not> rec_terminate (recorder w)"
    "rec_recording (recorder w)" "1 \<le> required_silent_chunks (recorder w)"
    "\<forall>d \<in> set ds. \<not> is_silent (silence_threshold (recorder w)) d"
  shows "execute (reads ds) (sm, w) =
     (sm, w\<lparr>recorder := (recorder w)
              \<lparr>frames := frames (recorder w) @ ds,
               silent_chunks := (if ds = [] then silent_chunks (recorder w) else 0)\<rparr>\<rparr>)"
  using assms
proof (induction ds arbitrary: w)
  case Nil
  show ?case by (simp add: reads_Nil)
next
  case (Cons d ds)
  let ?w1 = "w\<lparr>recorder := (recorder w)\<lparr>frames := frames (recorder w) @ [d], silent_chunks := 0\<rparr>\<rparr>"
  have one: "Recorder_run (Inr d) w = ?w1"
    using Recorder_run_no_split [OF Cons.prems(1-3), of 0 d] Cons.prems(4,5) by simp
  have "execute (reads ds) (sm, ?w1) =
     (sm, ?w1\<lparr>recorder := (recorder ?w1)
              \<lparr>frames := frames (recorder ?w1) @ ds,
               silent_chunks := (if ds = [] then silent_chunks (recorder ?w1) else 0)\<rparr>\<rparr>)"
    using Cons.prems by (intro Cons.IH) simp_all
  with one show ?case by (simp add: reads_Cons)
qed

lemma reads_silent:
  assumes "rec_thread (recorder w) = Running" "\<not> rec_terminate (recorder w)"
    "rec_recording (recorder w)"
    "\<forall>d \<in> set ds. is_silent (silence_threshold (recorder w)) d"
    "silent_chunks (recorder w) + int (length ds) < required_silent_chunks (recorder w)"
  shows "execute (reads ds) (sm, w) =
     (sm, w\<lparr>recorder := (recorder w)
              \<lparr>frames := frames (recorder w) @ ds,
               silent_chunks := silent_chunks (recorder w) + int (length ds)\<rparr>\<rparr>)"
  using assms
proof (induction ds arbitrary: w)
  case Nil
  show ?case by (simp add: reads_Nil)
next
  case (Cons d ds)
  let ?w1 = "w\<lparr>recorder := (recorder w)\<lparr>frames := frames (recorder w) @ [d],
               silent_chunks := silent_chunks (recorder w) + 1\<rparr>\<rparr>"
  have one: "Recorder_run (Inr d) w = ?w1"
    using Recorder_run_no_split [OF Cons.prems(1-3), of "silent_chunks (recorder w) + 1" d]
      Cons.prems(4,5) by simp
  have "execute (reads ds) (sm, ?w1) =
     (sm, ?w1\<lparr>recorder := (recorder ?w1)
              \<lparr>frames := frames (recorder ?w1) @ ds,
               silent_chunks := silent_chunks (recorder ?w1) + int (length ds)\<rparr>\<rparr>)"
    using Cons.prems by (intro Cons.IH) simp_all
  with one show ?case by (simp add: reads_Cons add.assoc)
qed

section \<open>The scenario of the specification\<close>

lemma engine_start:
  assumes "cs \<noteq> 0" "engine_init StateManager_init sr cs thr dur now = Inr s0"
  shows "execute [Call Activate, Call StartRecording] s0 =
     (\<lparr>sm_state = RECORDING, callbacks = engine_callbacks\<rparr>,
      \<lparr>recorder =
         \<lparr>sample_rate = sr, chunk_size = cs, silence_threshold = thr,
          required_silent_chunks = py_int (dur * of_int sr / of_int cs),
          rec_terminate = False, rec_recording = True, frames = [],
          silent_chunks = 0, rec_thread = Running\<rparr>,
       transcriber = \<lparr>tr_terminate = False, process_allowed = True, tr_thread = Running\<rparr>,
       audio_queue = [], files = Map.empty, clock = now, typed = [], put_log = []\<rparr>)"
proof -
  from assms engine_init_result [OF assms(1), of sr thr dur now]
  have s0: "s0 = (\<lparr>sm_state = INACTIVE, callbacks = engine_callbacks\<rparr>,
          \<lparr>recorder =
             \<lparr>sample_rate = sr, chunk_size = cs, silence_threshold = thr,
              required_silent_chunks = py_int (dur * of_int sr / of_int cs),
              rec_terminate = False, rec_recording = False, frames = [],
              silent_chunks = 0, rec_thread = Running\<rparr>,
           transcriber = \<lparr>tr_terminate = False, process_allowed = False, tr_thread = Running\<rparr>,
           audio_queue = [], files = Map.empty, clock = now, typed = [], put_log = []\<rparr>)"
    by simp
  show ?thesis
    unfolding s0
    by (simp add: step_call_engine Recorder_handle_state_change_def
        Transcriber_handle_state_change_def del: step.simps)
qed

lemma default_required: "py_int ((1::rat) * of_int 48000 / of_int 1024) = 46"
  by (simp add: py_int_def floor_eq_iff)


lemma default_scenario:
  assumes init: "VoiceTypingEngine_init StateManager_init now = Inr s0"
    and l1: "length speech1 = 100" and n1: "\<forall>d \<in> set speech1. \<not> is_silent 300 d"
    and l2: "length silence = 46" and n2: "\<forall>d \<in> set silence. is_silent 300 d"
    and l3: "length speech2 = 20" and n3: "\<forall>d \<in> set speech2. \<not> is_silent 300 d"
  shows "required_silent_chunks (recorder (snd s0)) = 46"
    and "put_log (snd (execute ([Call Activate, Call StartRecording] @ reads speech1
            @ reads (butlast silence)) s0)) = []"
    and "put_log (snd (execute ([Call Activate, Call StartRecording] @ reads speech1
            @ reads silence) s0)) = [speech1]"
    and "audio_queue (snd (execute ([Call Activate, Call StartRecording] @ reads speech1
            @ reads silence) s0)) = [now]"
    and "files (snd (execute ([Call Activate, Call StartRecording] @ reads speech1
            @ reads silence) s0)) now = Some speech1"
    and "put_log (snd (execute ([Call Activate, Call StartRecording] @ reads speech1
            @ reads silence @ reads speech2) s0)) = [speech1]"
    and "put_log (snd (execute ([Call Activate, Call StartRecording] @ reads speech1
            @ reads silence @ reads speech2 @ [Call StopApp, RecorderStep rd]) s0))
          = [speech1, silence @ speech2]"
    and "rec_thread (recorder (snd (execute ([Call Activate, Call StartRecording]
            @ reads speech1 @ reads silence @ reads speech2
            @ [Call StopApp, RecorderStep rd]) s0))) = Finished"
proof -
  let ?smR = "\<lparr>sm_state = RECORDING, callbacks = engine_callbacks\<rparr>"
  let ?r1 = "\<lparr>sample_rate = 48000, chunk_size = 1024, silence_threshold = 300,
          required_silent_chunks = 46,
          rec_terminate = False, rec_recording = True, frames = [],
          silent_chunks = 0, rec_thread = Running\<rparr>"
  let ?w1 = "\<lparr>recorder = ?r1,
       transcriber = \<lparr>tr_terminate = False, process_allowed = True, tr_thread = Running\<rparr>,
       audio_queue = [], files = Map.empty, clock = now, typed = [], put_log = []\<rparr>"
  let ?w2 = "?w1\<lparr>recorder := ?r1\<lparr>frames := speech1, silent_chunks := 0\<rparr>\<rparr>"
  let ?w3 = "?w1\<lparr>recorder := ?r1\<lparr>frames := speech1 @ butlast silence, silent_chunks := 45\<rparr>\<rparr>"
  let ?w4 = "?w1\<lparr>recorder := ?r1\<lparr>frames := silence, silent_chunks := 46\<rparr>,
      audio_queue := [now], files := [now \<mapsto> speech1], put_log := [speech1]\<rparr>"
  let ?w5 = "?w1\<lparr>recorder := ?r1\<lparr>frames := silence @ speech2, silent_chunks := 0\<rparr>,
      audio_queue := [now], files := [now \<mapsto> speech1], put_log := [speech1]\<rparr>"
  from init have e: "engine_init StateManager_init 48000 1024 300 1 now = Inr s0"
    by (simp add: VoiceTypingEngine_init_def)
  have z: "(1024::int) \<noteq> 0" by simp
  from e engine_init_result [OF z, of 48000 300 1 now]
  show "required_silent_chunks (recorder (snd s0)) = 46"
    using default_required by auto
  have s1: "execute [Call Activate, Call StartRecording] s0 = (?smR, ?w1)"
    using engine_start [OF z e] default_required by simp
  have ne1: "speech1 \<noteq> []" using l1 by auto
  have ne2: "silence \<noteq> []" using l2 by auto
  have ne3: "speech2 \<noteq> []" using l3 by auto
  have s2: "execute (reads speech1) (?smR, ?w1) = (?smR, ?w2)"
    using reads_speech [of ?w1 speech1 ?smR] n1 ne1 by simp
  have sil: "\<forall>d \<in> set (butlast silence). is_silent 300 d"
    using n2 by (meson in_set_butlastD)
  have s3: "execute (reads (butlast silence)) (?smR, ?w2) = (?smR, ?w3)"
    using reads_silent [of ?w2 "butlast silence" ?smR] sil l2 by simp
  have lastsil: "is_silent 300 (last silence)" using n2 ne2 by simp
  have bl: "butlast silence @ [last silence] = silence" using ne2 by simp
  have s4: "Recorder_run (Inr (last silence)) ?w3 = ?w4"
    using Recorder_run_split [of ?w3 46 "last silence"] lastsil l1 l2 bl
    by (simp add: enqueue_segment_def write_wav_def)
  have rs: "reads silence = reads (butlast silence) @ [RecorderStep (Inr (last silence))]"
    using bl reads_append [of "butlast silence" "[last silence]"]
    by (simp add: reads_Cons reads_Nil)
  have t3: "execute ([Call Activate, Call StartRecording] @ reads speech1
            @ reads (butlast silence)) s0 = (?smR, ?w3)"
    by (simp only: execute_append s1 s2 s3)
  then show "put_log (snd (execute ([Call Activate, Call StartRecording] @ reads speech1
            @ reads (butlast silence)) s0)) = []"
    by simp
  have t4: "execute ([Call Activate, Call StartRecording] @ reads speech1
            @ reads silence) s0 = (?smR, ?w4)"
    unfolding rs using s1 s2 s3 s4 by (simp only: execute_append execute.simps step.simps)
  from t4 show "put_log (snd (execute ([Call Activate, Call StartRecording] @ reads speech1
            @ reads silence) s0)) = [speech1]"
    by simp
  from t4 show "audio_queue (snd (execute ([Call Activate, Call StartRecording] @ reads speech1
            @ reads silence) s0)) = [now]"
    by simp
  from t4 show "files (snd (execute ([Call Activate, Call StartRecording] @ reads speech1
            @ reads silence) s0)) now = Some speech1"
    by simp
  have s5: "execute (reads speech2) (?smR, ?w4) = (?smR, ?w5)"
    using reads_speech [of ?w4 speech2 ?smR] n3 ne3 by simp
  have t5: "execute ([Call Activate, Call StartRecording] @ reads speech1
            @ reads silence @ reads speech2) s0 = (?smR, ?w5)"
    using t4 s5 by (simp only: execute_append append_assoc [symmetric])
  then show "put_log (snd (execute ([Call Activate, Call StartRecording] @ reads speech1
            @ reads silence @ reads speech2) s0)) = [speech1]"
    by simp
  have s6: "execute [Call StopApp, RecorderStep rd] (?smR, ?w5) =
      (\<lparr>sm_state = INACTIVE, callbacks = engine_callbacks\<rparr>,
       ?w1\<lparr>recorder := ?r1\<lparr>frames := silence @ speech2, silent_chunks := 0,
                 rec_terminate := True, rec_recording := False, rec_thread := Finished\<rparr>,
           transcriber := \<lparr>tr_terminate = True, process_allowed = False, tr_thread = Running\<rparr>,
           audio_queue := [now, now], files := [now \<mapsto> silence @ speech2],
           put_log := [speech1, silence @ speech2]\<rparr>)"
    using ne2
    by (simp add: step_call_engine Recorder_handle_state_change_def
        Transcriber_handle_state_change_def Recorder_run_def enqueue_segment_def
        write_wav_def del: step.simps(1))
  have t6: "execute ([Call Activate, Call StartRecording] @ reads speech1
            @ reads silence @ reads speech2 @ [Call StopApp, RecorderStep rd]) s0 =
      (\<lparr>sm_state = INACTIVE, callbacks = engine_callbacks\<rparr>,
       ?w1\<lparr>recorder := ?r1\<lparr>frames := silence @ speech2, silent_chunks := 0,
                 rec_terminate := True, rec_recording := False, rec_thread := Finished\<rparr>,
           transcriber := \<lparr>tr_terminate = True, process_allowed = False, tr_thread = Running\<rparr>,
           audio_queue := [now, now], files := [now \<mapsto> silence @ speech2],
           put_log := [speech1, silence @ speech2]\<rparr>)"
    using t5 s6 by (simp only: execute_append append_assoc [symmetric])
  from t6 show "put_log (snd (execute ([Call Activate, Call StartRecording] @ reads speech1
            @ reads silence @ reads speech2 @ [Call StopApp, RecorderStep rd]) s0))
          = [speech1, silence @ speech2]"
    by simp
  from t6 show "rec_thread (recorder (snd (execute ([Call Activate, Call StartRecording]
            @ reads speech1 @ reads silence @ reads speech2
            @ [Call StopApp, RecorderStep rd]) s0))) = Finished"
    by simp
qed

lemma speech_frame: "\<not> is_silent 300 [1000]"
  by (simp add: is_silent_def mean_abs_def abs_int16_def)

lemma silent_frame: "is_silent 300 [0]"
  by (simp add: is_silent_def mean_abs_def abs_int16_def)

lemma default_engine: "\<exists>s0. VoiceTypingEngine_init StateManager_init now = Inr s0"
  using engine_init_result [of 1024 48000 300 1 now]
  by (simp add: VoiceTypingEngine_init_def)

text \<open>
  Claim C2, as amended. With the default configuration (threshold 300, duration 1.0,
  sample rate 48000, chunk size 1024) the required count is 46. After activate and
  start_recording, let the recorder read 100 chunks that are not silent (their mean
  absolute amplitude is not below 300), then 46 silent chunks, then 20 chunks that are
  not silent. Nothing is put on the queue before the 46th silent chunk; the iteration
  that reads it writes exactly the 100 speech chunks to a file and puts that one path on
  the queue; the 20 later chunks put nothing. After shutdown (stop_app) the next
  iteration of the recorder leaves the loop and puts exactly one more segment: the 46
  silent chunks that the split kept, followed by the 20 chunks, 66 in all.
\<close>

theorem scenario_segments:
  assumes "VoiceTypingEngine_init StateManager_init now = Inr s0"
    and "length speech1 = 100" and "\<forall>d \<in> set speech1. \<not> is_silent 300 d"
    and "length silence = 46" and "\<forall>d \<in> set silence. is_silent 300 d"
    and "length speech2 = 20" and "\<forall>d \<in> set speech2. \<not> is_silent 300 d"
  shows "required_silent_chunks (recorder (snd s0)) = 46
    \<and> put_log (snd (execute ([Call Activate, Call StartRecording] @ reads speech1
            @ reads (butlast silence)) s0)) = []
    \<and> put_log (snd (execute ([Call Activate, Call StartRecording] @ reads speech1
            @ reads silence) s0)) = [speech1]
    \<and> audio_queue (snd (execute ([Call Activate, Call StartRecording] @ reads speech1
            @ reads silence) s0)) = [now]
    \<and> files (snd (execute ([Call Activate, Call StartRecording] @ reads speech1
            @ reads silence) s0)) now = Some speech1
    \<and> put_log (snd (execute ([Call Activate, Call StartRecording] @ reads speech1
            @ reads silence @ reads speech2) s0)) = [speech1]
    \<and> put_log (snd (execute ([Call Activate, Call StartRecording] @ reads speech1
            @ reads silence @ reads speech2 @ [Call StopApp, RecorderStep rd]) s0))
          = [speech1, silence @ speech2]
    \<and> length (silence @ speech2) = 66"
  using default_scenario [OF assms] assms(4,6) by simp

theorem scenario_segments_witness:
  "\<exists>s0. VoiceTypingEngine_init StateManager_init 0 = Inr s0
    \<and> required_silent_chunks (recorder (snd s0)) = 46
    \<and> put_log (snd (execute ([Call Activate, Call StartRecording]
            @ reads (replicate 100 [1000]) @ reads (replicate 46 [0])) s0))
          = [replicate 100 [1000]]
    \<and> put_log (snd (execute ([Call Activate, Call StartRecording]
            @ reads (replicate 100 [1000]) @ reads (replicate 46 [0])
            @ reads (replicate 20 [1000]) @ [Call StopApp, RecorderStep (Inr [1000])]) s0))
          = [replicate 100 [1000], replicate 46 [0] @ replicate 20 [1000]]"
proof -
  obtain s0 where i: "VoiceTypingEngine_init StateManager_init 0 = Inr s0"
    using default_engine by blast
  have a: "length (replicate 100 [1000::int]) = 100"
    "\<forall>d \<in> set (replicate 100 [1000]). \<not> is_silent 300 d"
    "length (replicate 46 [0::int]) = 46"
    "\<forall>d \<in> set (replicate 46 [0]). is_silent 300 d"
    "length (replicate 20 [1000::int]) = 20"
    "\<forall>d \<in> set (replicate 20 [1000]). \<not> is_silent 300 d"
    using speech_frame silent_frame by simp_all
  from scenario_segments [OF i a, of "Inr [1000]"] i show ?thesis by blast
qed

text \<open>
  Claim C2 as stated fails on its last count: in the scenario, with chunks of the one
  sample 1000 for speech and of the one sample 0 for silence, the segments put on the
  queue hold 100 and 66 chunks; the final flush does not put a segment of 20 chunks.
\<close>

theorem final_flush_has_66_chunks:
  "(case VoiceTypingEngine_init StateManager_init 0 of
      Inl e \<Rightarrow> None
    | Inr s0 \<Rightarrow>
        Some (map length (put_log (snd (execute ([Call Activate, Call StartRecording]
            @ reads (replicate 100 [1000]) @ reads (replicate 46 [0])
            @ reads (replicate 20 [1000]) @ [Call StopApp, RecorderStep (Inr [1000])]) s0)))))
     = Some [100, 66]
   \<and> (66::nat) \<noteq> 20"
proof -
  obtain s0 where i: "VoiceTypingEngine_init StateManager_init 0 = Inr s0"
    using default_engine by blast
  have a: "length (replicate 100 [1000::int]) = 100"
    "\<forall>d \<in> set (replicate 100 [1000]). \<not> is_silent 300 d"
    "length (replicate 46 [0::int]) = 46"
    "\<forall>d \<in> set (replicate 46 [0]). is_silent 300 d"
    "length (replicate 20 [1000::int]) = 20"
    "\<forall>d \<in> set (replicate 20 [1000]). \<not> is_silent 300 d"
    using speech_frame silent_frame by simp_all
  from default_scenario(7) [OF i a] i show ?thesis by simp
qed

section \<open>Concrete runs of the default engine\<close>

lemma default_start:
  assumes "VoiceTypingEngine_init StateManager_init now = Inr s0"
  shows "execute [Call Activate, Call StartRecording] s0 =
     (\<lparr>sm_state = RECORDING, callbacks = engine_callbacks\<rparr>,
      \<lparr>recorder =
         \<lparr>sample_rate = 48000, chunk_size = 1024, silence_threshold = 300,
          required_silent_chunks = 46,
          rec_terminate = False, rec_recording = True, frames = [],
          silent_chunks = 0, rec_thread = Running\<rparr>,
       transcriber = \<lparr>tr_terminate = False, process_allowed = True, tr_thread = Running\<rparr>,
       audio_queue = [], files = Map.empty, clock = now, typed = [], put_log = []\<rparr>)"
proof -
  have z: "(1024::int) \<noteq> 0" by simp
  from assms have e: "engine_init StateManager_init 48000 1024 300 1 now = Inr s0"
    by (simp add: VoiceTypingEngine_init_def)
  show ?thesis using engine_start [OF z e] default_required by simp
qed

lemma reads_utterance:
  assumes run: "rec_thread (recorder w) = Running" "\<not> rec_terminate (recorder w)"
    "rec_recording (recorder w)"
    and req: "1 \<le> required_silent_chunks (recorder w)"
    and sp: "speech \<noteq> []" "\<forall>d \<in> set speech. \<not> is_silent (silence_threshold (recorder w)) d"
    and si: "\<forall>d \<in> set silence. is_silent (silence_threshold (recorder w)) d"
      "int (length silence) = required_silent_chunks (recorder w)"
  shows "execute (reads (speech @ silence)) (sm, w) =
     (sm, (enqueue_segment (frames (recorder w) @ speech) w)
            \<lparr>recorder := (recorder w)
               \<lparr>frames := silence,
                silent_chunks := required_silent_chunks (recorder w)\<rparr>\<rparr>)"
proof -
  let ?r = "recorder w"
  let ?n = "required_silent_chunks ?r"
  let ?w2 = "w\<lparr>recorder := ?r\<lparr>frames := frames ?r @ speech, silent_chunks := 0\<rparr>\<rparr>"
  let ?w3 = "w\<lparr>recorder := ?r\<lparr>frames := frames ?r @ speech @ butlast silence,
                silent_chunks := ?n - 1\<rparr>\<rparr>"
  have ne: "silence \<noteq> []" using req si(2) by auto
  have bl: "butlast silence @ [last silence] = silence" using ne by simp
  have "0 < length silence" using ne by simp
  then have "int (length silence - 1) = int (length silence) - 1" by linarith
  then have lb: "int (length (butlast silence)) = ?n - 1" using si(2) by simp
  have s2: "execute (reads speech) (sm, w) = (sm, ?w2)"
    using reads_speech [OF run req sp(2), of sm] sp(1) by simp
  have sil: "\<forall>d \<in> set (butlast silence). is_silent (silence_threshold ?r) d"
    using si(1) by (meson in_set_butlastD)
  have s3: "execute (reads (butlast silence)) (sm, ?w2) = (sm, ?w3)"
    using reads_silent [of ?w2 "butlast silence" sm] run sil lb by simp
  have lastsil: "is_silent (silence_threshold ?r) (last silence)" using si(1) ne by simp
  have len: "length (frames ?r @ speech @ butlast silence) + 1 - nat ?n
      = length (frames ?r @ speech)"
    using lb req by simp
  have s4: "Recorder_run (Inr (last silence)) ?w3 =
     (enqueue_segment (frames ?r @ speech) w)
        \<lparr>recorder := ?r\<lparr>frames := silence, silent_chunks := ?n\<rparr>\<rparr>"
  proof -
    have c7: "?n < int (length (frames (recorder ?w3))) + 1"
      using lb sp(1) by (cases speech) simp_all
    have "Recorder_run (Inr (last silence)) ?w3 =
     (enqueue_segment (take (length (frames (recorder ?w3)) + 1 - nat ?n)
          (frames (recorder ?w3) @ [last silence])) ?w3)
       \<lparr>recorder := (recorder ?w3)
          \<lparr>frames := drop (length (frames (recorder ?w3)) + 1 - nat ?n)
              (frames (recorder ?w3) @ [last silence]),
           silent_chunks := ?n\<rparr>\<rparr>"
      using run req lastsil c7
      by (intro Recorder_run_split) simp_all
    moreover have "take (length (frames (recorder ?w3)) + 1 - nat ?n)
          (frames (recorder ?w3) @ [last silence]) = frames ?r @ speech"
      using len by simp
    moreover have "drop (length (frames (recorder ?w3)) + 1 - nat ?n)
          (frames (recorder ?w3) @ [last silence]) = silence"
      using len bl by simp
    ultimately show ?thesis
      by (simp add: enqueue_segment_def write_wav_def del: take_append drop_append)
  qed
  have "reads (speech @ silence) =
      reads speech @ reads (butlast silence) @ [RecorderStep (Inr (last silence))]"
    using bl reads_append [of speech silence] reads_append [of "butlast silence" "[last silence]"]
    by (simp add: reads_Cons reads_Nil)
  then show ?thesis
    using s2 s3 s4 by (simp only: execute_append execute.simps step.simps)
qed

lemma default_first_utterance:
  assumes "VoiceTypingEngine_init StateManager_init now = Inr s0"
  shows "execute ([Call Activate, Call StartRecording] @ reads ([1000] # replicate 46 [0])) s0 =
     (\<lparr>sm_state = RECORDING, callbacks = engine_callbacks\<rparr>,
      \<lparr>recorder =
         \<lparr>sample_rate = 48000, chunk_size = 1024, silence_threshold = 300,
          required_silent_chunks = 46,
          rec_terminate = False, rec_recording = True, frames = replicate 46 [0],
          silent_chunks = 46, rec_thread = Running\<rparr>,
       transcriber = \<lparr>tr_terminate = False, process_allowed = True, tr_thread = Running\<rparr>,
       audio_queue = [now], files = [now \<mapsto> [[1000]]], clock = now, typed = [],
       put_log = [[[1000]]]\<rparr>)"
proof -
  let ?w1 = "\<lparr>recorder =
         \<lparr>sample_rate = 48000, chunk_size = 1024, silence_threshold = 300,
          required_silent_chunks = 46,
          rec_terminate = False, rec_recording = True, frames = [],
          silent_chunks = 0, rec_thread = Running\<rparr>,
       transcriber = \<lparr>tr_terminate = False, process_allowed = True, tr_thread = Running\<rparr>,
       audio_queue = [], files = Map.empty, clock = now, typed = [], put_log = []\<rparr>"
  have "execute (reads ([[1000]] @ replicate 46 [0]))
      (\<lparr>sm_state = RECORDING, callbacks = engine_callbacks\<rparr>, ?w1) =
     (\<lparr>sm_state = RECORDING, callbacks = engine_callbacks\<rparr>,
      (enqueue_segment (frames (recorder ?w1) @ [[1000]]) ?w1)
            \<lparr>recorder := (recorder ?w1)
               \<lparr>frames := replicate 46 [0],
                silent_chunks := required_silent_chunks (recorder ?w1)\<rparr>\<rparr>)"
    using speech_frame silent_frame by (intro reads_utterance) simp_all
  then show ?thesis
    using default_start [OF assms]
    by (simp add: execute_append enqueue_segment_def write_wav_def)
qed

section \<open>Errors in the workers\<close>

text \<open>
  Claim C7, as amended. An audio-source read error is not caught: when the recorder is
  capturing, the first read that raises ends the recorder's thread with that exception.
  The iteration changes nothing else, so no flush is attempted and nothing is reported;
  no count of consecutive failures exists. After that, whatever the schedule, the thread
  stays dead, the accumulation buffer stays as it was, and nothing more is put on the
  queue by the recorder.
\<close>

theorem read_error_ends_recorder:
  assumes "callbacks sm = engine_callbacks"
    and "rec_thread (recorder w) = Running" and "\<not> rec_terminate (recorder w)"
    and "rec_recording (recorder w)"
  shows "Recorder_run (Inl e) w = w\<lparr>recorder := (recorder w)\<lparr>rec_thread := Died e\<rparr>\<rparr>
    \<and> rec_thread (recorder (snd (execute evs (sm, Recorder_run (Inl e) w)))) = Died e
    \<and> frames (recorder (snd (execute evs (sm, Recorder_run (Inl e) w)))) = frames (recorder w)
    \<and> put_log (snd (execute evs (sm, Recorder_run (Inl e) w))) = put_log w"
proof -
  have one: "Recorder_run (Inl e) w = w\<lparr>recorder := (recorder w)\<lparr>rec_thread := Died e\<rparr>\<rparr>"
    using assms(2-4) by (simp add: Recorder_run_def)
  have "rec_thread (recorder (snd (sm, Recorder_run (Inl e) w))) \<noteq> Running"
    using one by simp
  from execute_dead_recorder [of "(sm, Recorder_run (Inl e) w)" evs, OF _ this] assms(1) one
  show ?thesis by simp
qed

theorem read_error_ends_recorder_witness:
  "\<exists>s0. VoiceTypingEngine_init StateManager_init 0 = Inr s0
     \<and> rec_thread (recorder (snd (execute
          ([Call Activate, Call StartRecording, RecorderStep (Inr [1000]),
            RecorderStep (Inl AudioReadError), RecorderStep (Inr [1000]),
            Call StopApp, RecorderStep (Inr [1000])]) s0))) = Died AudioReadError
     \<and> frames (recorder (snd (execute
          ([Call Activate, Call StartRecording, RecorderStep (Inr [1000]),
            RecorderStep (Inl AudioReadError), RecorderStep (Inr [1000]),
            Call StopApp, RecorderStep (Inr [1000])]) s0))) = [[1000]]
     \<and> put_log (snd (execute
          ([Call Activate, Call StartRecording, RecorderStep (Inr [1000]),
            RecorderStep (Inl AudioReadError), RecorderStep (Inr [1000]),
            Call StopApp, RecorderStep (Inr [1000])]) s0)) = []"
proof -
  obtain s0 where i: "VoiceTypingEngine_init StateManager_init 0 = Inr s0"
    using default_engine by blast
  let ?sm = "\<lparr>sm_state = RECORDING, callbacks = engine_callbacks\<rparr>"
  let ?w = "\<lparr>recorder =
         \<lparr>sample_rate = 48000, chunk_size = 1024, silence_threshold = 300,
          required_silent_chunks = 46,
          rec_terminate = False, rec_recording = True, frames = [[1000]],
          silent_chunks = 0, rec_thread = Running\<rparr>,
       transcriber = \<lparr>tr_terminate = False, process_allowed = True, tr_thread = Running\<rparr>,
       audio_queue = [], files = Map.empty, clock = 0, typed = [], put_log = []\<rparr>"
  have a: "execute ([Call Activate, Call StartRecording] @ [RecorderStep (Inr [1000])]) s0
      = (?sm, ?w)"
    unfolding execute_append default_start [OF i]
    by (simp add: Recorder_run_def speech_frame)
  have l: "[Call Activate, Call StartRecording, RecorderStep (Inr [1000]),
            RecorderStep (Inl AudioReadError), RecorderStep (Inr [1000]),
            Call StopApp, RecorderStep (Inr [1000])]
      = ([Call Activate, Call StartRecording] @ [RecorderStep (Inr [1000])])
        @ [RecorderStep (Inl AudioReadError)]
        @ [RecorderStep (Inr [1000]), Call StopApp, RecorderStep (Inr [1000])]"
    by simp
  have b: "execute ([Call Activate, Call StartRecording, RecorderStep (Inr [1000]),
            RecorderStep (Inl AudioReadError), RecorderStep (Inr [1000]),
            Call StopApp, RecorderStep (Inr [1000])]) s0
      = execute [RecorderStep (Inr [1000]), Call StopApp, RecorderStep (Inr [1000])]
          (?sm, Recorder_run (Inl AudioReadError) ?w)"
    apply (subst l)
    apply (subst execute_append)
    apply (subst a)
    apply (simp only: append.simps execute.simps step.simps)
    done
  have h: "callbacks ?sm = engine_callbacks" "rec_thread (recorder ?w) = Running"
    "\<not> rec_terminate (recorder ?w)" "rec_recording (recorder ?w)"
    by simp_all
  note t = read_error_ends_recorder [OF h, of AudioReadError
      "[RecorderStep (Inr [1000]), Call StopApp, RecorderStep (Inr [1000])]"]
  have fr: "frames (recorder ?w) = [[1000]]" "put_log ?w = []" by simp_all
  from t have "rec_thread (recorder (snd (execute
          [RecorderStep (Inr [1000]), Call StopApp, RecorderStep (Inr [1000])]
          (?sm, Recorder_run (Inl AudioReadError) ?w)))) = Died AudioReadError
    \<and> frames (recorder (snd (execute
          [RecorderStep (Inr [1000]), Call StopApp, RecorderStep (Inr [1000])]
          (?sm, Recorder_run (Inl AudioReadError) ?w)))) = [[1000]]
    \<and> put_log (snd (execute
          [RecorderStep (Inr [1000]), Call StopApp, RecorderStep (Inr [1000])]
          (?sm, Recorder_run (Inl AudioReadError) ?w))) = []"
    unfolding fr by blast
  then show ?thesis unfolding b [symmetric] using i by blast
qed

text \<open>
  Claim C7 as stated fails: in the default engine, recording, with one chunk in the
  buffer, a single read error ends the recorder's thread; nothing is flushed, and the
  read that follows is not made.
\<close>

theorem single_read_error_kills_recorder:
  "(case VoiceTypingEngine_init StateManager_init 0 of
      Inl e \<Rightarrow> None
    | Inr s0 \<Rightarrow>
        Some (rec_thread (recorder (snd (execute
                [Call Activate, Call StartRecording, RecorderStep (Inr [1000]),
                 RecorderStep (Inl AudioReadError), RecorderStep (Inr [1000])] s0))),
              frames (recorder (snd (execute
                [Call Activate, Call StartRecording, RecorderStep (Inr [1000]),
                 RecorderStep (Inl AudioReadError), RecorderStep (Inr [1000])] s0))),
              put_log (snd (execute
                [Call Activate, Call StartRecording, RecorderStep (Inr [1000]),
                 RecorderStep (Inl AudioReadError), RecorderStep (Inr [1000])] s0))))
     = Some (Died AudioReadError, [[1000]], [])"
proof -
  obtain s0 where i: "VoiceTypingEngine_init StateManager_init 0 = Inr s0"
    using default_engine by blast
  have "execute ([Call Activate, Call StartRecording] @ [RecorderStep (Inr [1000]),
                 RecorderStep (Inl AudioReadError), RecorderStep (Inr [1000])]) s0
     = (\<lparr>sm_state = RECORDING, callbacks = engine_callbacks\<rparr>,
        \<lparr>recorder =
         \<lparr>sample_rate = 48000, chunk_size = 1024, silence_threshold = 300,
          required_silent_chunks = 46,
          rec_terminate = False, rec_recording = True, frames = [[1000]],
          silent_chunks = 0, rec_thread = Died AudioReadError\<rparr>,
       transcriber = \<lparr>tr_terminate = False, process_allowed = True, tr_thread = Running\<rparr>,
       audio_queue = [], files = Map.empty, clock = 0, typed = [], put_log = []\<rparr>)"
    unfolding execute_append default_start [OF i]
    by (simp add: Recorder_run_def speech_frame)
  with i show ?thesis by simp
qed

text \<open>
  Claim C4, as amended. When the transcriber takes a segment off the queue, the
  segment's file is removed after the attempt in every case, success or engine error,
  and the segment is not put back. An engine error is not caught: after the file is
  removed the exception leaves the loop and ends the transcriber's thread. From then on,
  whatever the schedule, the thread stays dead, nothing more is typed, and the queue is
  never taken from again, so later segments stay unprocessed. When the engine returns
  and the output callback does not raise, the thread keeps running.
\<close>

theorem transcription_error_ends_transcriber:
  assumes "callbacks sm = engine_callbacks"
    and "tr_thread (transcriber w) = Running" and "\<not> tr_terminate (transcriber w)"
    and "process_allowed (transcriber w)" and "audio_queue w = audio_file # rest"
  shows "files (Transcriber_run res out w) audio_file = None
    \<and> audio_queue (Transcriber_run res out w) = rest
    \<and> (\<forall>e. res = Inl e \<longrightarrow>
          Transcriber_run res out w =
            w\<lparr>audio_queue := rest, files := (files w)(audio_file := None),
              transcriber := (transcriber w)\<lparr>tr_thread := Died e\<rparr>\<rparr>
          \<and> tr_thread (transcriber (snd (execute evs (sm, Transcriber_run res out w)))) = Died e
          \<and> typed (snd (execute evs (sm, Transcriber_run res out w))) = typed w
          \<and> (\<exists>new. audio_queue (snd (execute evs (sm, Transcriber_run res out w))) = rest @ new))
    \<and> (\<forall>result_text. res = Inr result_text \<longrightarrow> (strip result_text = [] \<or> out = None) \<longrightarrow>
          tr_thread (transcriber (Transcriber_run res out w)) = Running)"
proof (intro conjI allI impI)
  show "files (Transcriber_run res out w) audio_file = None"
    using assms(2-5)
    by (simp add: Transcriber_run_def Let_def split: sum.splits option.splits)
  show q: "audio_queue (Transcriber_run res out w) = rest"
    using assms(2-5)
    by (simp add: Transcriber_run_def Let_def split: sum.splits option.splits)
next
  fix e
  assume r: "res = Inl e"
  show one: "Transcriber_run res out w =
      w\<lparr>audio_queue := rest, files := (files w)(audio_file := None),
        transcriber := (transcriber w)\<lparr>tr_thread := Died e\<rparr>\<rparr>"
    using assms(2-5) r by (simp add: Transcriber_run_def Let_def)
  have dead: "tr_thread (transcriber (snd (sm, Transcriber_run res out w))) \<noteq> Running"
    using one by simp
  note d = execute_dead_transcriber [of "(sm, Transcriber_run res out w)" evs, OF _ dead]
  show "tr_thread (transcriber (snd (execute evs (sm, Transcriber_run res out w)))) = Died e"
    using d assms(1) one by simp
  show "typed (snd (execute evs (sm, Transcriber_run res out w))) = typed w"
    using d assms(1) one by simp
  show "\<exists>new. audio_queue (snd (execute evs (sm, Transcriber_run res out w))) = rest @ new"
    using d assms(1) one by simp
next
  fix result_text
  assume "res = Inr result_text" "strip result_text = [] \<or> out = None"
  then show "tr_thread (transcriber (Transcriber_run res out w)) = Running"
    using assms(2-5) by (auto simp: Transcriber_run_def Let_def)
qed

theorem transcription_error_ends_transcriber_witness:
  "\<exists>s0. VoiceTypingEngine_init StateManager_init 0 = Inr s0
     \<and> tr_thread (transcriber (snd (execute
          (([Call Activate, Call StartRecording] @ reads ([1000] # replicate 46 [0]))
           @ [TranscriberStep (Inl TranscriptionError) None]
           @ (reads ([1000] # replicate 46 [0]) @ [TranscriberStep (Inr ''ola'') None])) s0)))
         = Died TranscriptionError
     \<and> typed (snd (execute
          (([Call Activate, Call StartRecording] @ reads ([1000] # replicate 46 [0]))
           @ [TranscriberStep (Inl TranscriptionError) None]
           @ (reads ([1000] # replicate 46 [0]) @ [TranscriberStep (Inr ''ola'') None])) s0))
         = []"
proof -
  obtain s0 where i: "VoiceTypingEngine_init StateManager_init 0 = Inr s0"
    using default_engine by blast
  let ?sm = "\<lparr>sm_state = RECORDING, callbacks = engine_callbacks\<rparr>"
  let ?w = "\<lparr>recorder =
         \<lparr>sample_rate = 48000, chunk_size = 1024, silence_threshold = 300,
          required_silent_chunks = 46,
          rec_terminate = False, rec_recording = True, frames = replicate 46 [0],
          silent_chunks = 46, rec_thread = Running\<rparr>,
       transcriber = \<lparr>tr_terminate = False, process_allowed = True, tr_thread = Running\<rparr>,
       audio_queue = [0], files = [0 \<mapsto> [[1000]]], clock = 0, typed = [],
       put_log = [[[1000]]]\<rparr>"
  let ?evs = "reads ([1000] # replicate 46 [0]) @ [TranscriberStep (Inr ''ola'') None]"
  have h: "callbacks ?sm = engine_callbacks" "tr_thread (transcriber ?w) = Running"
    "\<not> tr_terminate (transcriber ?w)" "process_allowed (transcriber ?w)"
    "audio_queue ?w = 0 # []"
    by simp_all
  note t = transcription_error_ends_transcriber
    [OF h, of "Inl TranscriptionError" None ?evs, THEN conjunct2, THEN conjunct2,
     THEN conjunct1, rule_format, OF refl]
  have ty: "typed ?w = []" by simp
  have b: "execute (([Call Activate, Call StartRecording] @ reads ([1000] # replicate 46 [0]))
           @ [TranscriberStep (Inl TranscriptionError) None] @ ?evs) s0
      = execute ?evs (?sm, Transcriber_run (Inl TranscriptionError) None ?w)"
    apply (subst execute_append)
    apply (subst default_first_utterance [OF i])
    apply (subst execute_append)
    apply (simp only: execute.simps step.simps)
    done
  from t have "tr_thread (transcriber (snd (execute ?evs
        (?sm, Transcriber_run (Inl TranscriptionError) None ?w)))) = Died TranscriptionError
     \<and> typed (snd (execute ?evs (?sm, Transcriber_run (Inl TranscriptionError) None ?w))) = []"
    unfolding ty by blast
  then show ?thesis unfolding b [symmetric] using i by blast
qed

text \<open>
  Claim C4 as stated fails on its first half: in the default engine, recording, an
  engine error on the first segment ends the transcriber's thread. A second segment is
  then put on the queue, and the iteration that would transcribe it does nothing: the
  path stays on the queue and nothing is typed.
\<close>

theorem engine_error_kills_transcriber:
  "(case VoiceTypingEngine_init StateManager_init 0 of
      Inl e \<Rightarrow> None
    | Inr s0 \<Rightarrow>
        Some (tr_thread (transcriber (snd (execute
                (([Call Activate, Call StartRecording] @ reads ([1000] # replicate 46 [0]))
                 @ [TranscriberStep (Inl TranscriptionError) None]
                 @ reads ([1000] # replicate 46 [0])
                 @ [TranscriberStep (Inr ''ola'') None]) s0))),
              audio_queue (snd (execute
                (([Call Activate, Call StartRecording] @ reads ([1000] # replicate 46 [0]))
                 @ [TranscriberStep (Inl TranscriptionError) None]
                 @ reads ([1000] # replicate 46 [0])
                 @ [TranscriberStep (Inr ''ola'') None]) s0)),
              typed (snd (execute
                (([Call Activate, Call StartRecording] @ reads ([1000] # replicate 46 [0]))
                 @ [TranscriberStep (Inl TranscriptionError) None]
                 @ reads ([1000] # replicate 46 [0])
                 @ [TranscriberStep (Inr ''ola'') None]) s0))))
     = Some (Died TranscriptionError, [0], [])"
proof -
  obtain s0 where i: "VoiceTypingEngine_init StateManager_init 0 = Inr s0"
    using default_engine by blast
  let ?sm = "\<lparr>sm_state = RECORDING, callbacks = engine_callbacks\<rparr>"
  let ?w2 = "\<lparr>recorder =
         \<lparr>sample_rate = 48000, chunk_size = 1024, silence_threshold = 300,
          required_silent_chunks = 46,
          rec_terminate = False, rec_recording = True, frames = replicate 46 [0],
          silent_chunks = 46, rec_thread = Running\<rparr>,
       transcriber = \<lparr>tr_terminate = False, process_allowed = True,
          tr_thread = Died TranscriptionError\<rparr>,
       audio_queue = [], files = Map.empty, clock = 0, typed = [],
       put_log = [[[1000]]]\<rparr>"
  let ?w3 = "?w2\<lparr>audio_queue := [0], files := [0 \<mapsto> replicate 46 [0] @ [[1000]]],
       put_log := [[[1000]], replicate 46 [0] @ [[1000]]]\<rparr>"
  note d1 = default_first_utterance [OF i, unfolded execute_append]
  have a: "execute [TranscriberStep (Inl TranscriptionError) None]
      (execute (reads ([1000] # replicate 46 [0]))
        (execute [Call Activate, Call StartRecording] s0))
      = (?sm, ?w2)"
    unfolding d1 by (simp add: Transcriber_run_def)
  have "execute (reads ([[1000]] @ replicate 46 [0])) (?sm, ?w2) =
     (?sm, (enqueue_segment (frames (recorder ?w2) @ [[1000]]) ?w2)
            \<lparr>recorder := (recorder ?w2)
               \<lparr>frames := replicate 46 [0],
                silent_chunks := required_silent_chunks (recorder ?w2)\<rparr>\<rparr>)"
    using speech_frame silent_frame by (intro reads_utterance) simp_all
  then have b: "execute (reads ([1000] # replicate 46 [0])) (?sm, ?w2) = (?sm, ?w3)"
    by (simp add: enqueue_segment_def write_wav_def)
  have c: "execute [TranscriberStep (Inr ''ola'') None] (?sm, ?w3) = (?sm, ?w3)"
    by (simp add: Transcriber_run_def)
  have "execute (([Call Activate, Call StartRecording] @ reads ([1000] # replicate 46 [0]))
                 @ [TranscriberStep (Inl TranscriptionError) None]
                 @ reads ([1000] # replicate 46 [0])
                 @ [TranscriberStep (Inr ''ola'') None]) s0 = (?sm, ?w3)"
    by (simp only: execute_append a b c)
  with i show ?thesis by simp
qed

section \<open>State changes seen by the workers\<close>

lemma step_keeps_terminate:
  assumes "callbacks sm = engine_callbacks"
  shows "rec_terminate (recorder w) \<Longrightarrow> rec_terminate (recorder (snd (step e (sm, w))))"
    and "tr_terminate (transcriber w) \<Longrightarrow> tr_terminate (transcriber (snd (step e (sm, w))))"
proof -
  show "rec_terminate (recorder w) \<Longrightarrow> rec_terminate (recorder (snd (step e (sm, w))))"
  proof (cases e)
    case (Call op)
    assume "rec_terminate (recorder w)"
    then show ?thesis
      unfolding Call step_call_engine [OF assms]
      by (simp add: Recorder_handle_state_change_def Let_def split: option.splits)
  next
    case (RecorderStep rd)
    assume "rec_terminate (recorder w)"
    then show ?thesis using RecorderStep
      by (simp add: Recorder_run_def Let_def enqueue_segment_def write_wav_def)
  next
    case (TranscriberStep res out)
    assume "rec_terminate (recorder w)"
    then show ?thesis using TranscriberStep by (simp add: Transcriber_run_frame)
  next
    case (Tick n)
    assume "rec_terminate (recorder w)"
    then show ?thesis using Tick by simp
  qed
  show "tr_terminate (transcriber w) \<Longrightarrow> tr_terminate (transcriber (snd (step e (sm, w))))"
  proof (cases e)
    case (Call op)
    assume "tr_terminate (transcriber w)"
    then show ?thesis
      unfolding Call step_call_engine [OF assms]
      by (simp add: Transcriber_handle_state_change_def Let_def split: option.splits)
  next
    case (RecorderStep rd)
    assume "tr_terminate (transcriber w)"
    then show ?thesis using RecorderStep by (simp add: Recorder_run_frame)
  next
    case (TranscriberStep res out)
    assume "tr_terminate (transcriber w)"
    then show ?thesis using TranscriberStep by (simp add: Transcriber_run_def Let_def)
  next
    case (Tick n)
    assume "tr_terminate (transcriber w)"
    then show ?thesis using Tick by simp
  qed
qed

lemma execute_keeps_terminate:
  assumes "callbacks (fst s) = engine_callbacks"
  shows "rec_terminate (recorder (snd s)) \<Longrightarrow> rec_terminate (recorder (snd (execute evs s)))"
    and "tr_terminate (transcriber (snd s)) \<Longrightarrow> tr_terminate (transcriber (snd (execute evs s)))"
proof -
  have both: "callbacks (fst s) = engine_callbacks \<Longrightarrow>
      (rec_terminate (recorder (snd s)) \<longrightarrow> rec_terminate (recorder (snd (execute evs s))))
    \<and> (tr_terminate (transcriber (snd s)) \<longrightarrow> tr_terminate (transcriber (snd (execute evs s))))"
  proof (induction evs arbitrary: s)
    case Nil
    show ?case by simp
  next
    case (Cons e evs)
    obtain sm w where s: "s = (sm, w)" by (cases s)
    from Cons.prems s have p: "callbacks sm = engine_callbacks" by simp
    have c: "callbacks (fst (step e s)) = engine_callbacks"
      using step_keeps_callbacks [of e sm w] p s by simp
    from Cons.IH [OF c] step_keeps_terminate [OF p, of w e] s show ?case by simp
  qed
  from both [OF assms]
  show "rec_terminate (recorder (snd s)) \<Longrightarrow> rec_terminate (recorder (snd (execute evs s)))"
    and "tr_terminate (transcriber (snd s)) \<Longrightarrow> tr_terminate (transcriber (snd (execute evs s)))"
    by simp_all
qed

lemma Recorder_run_terminate:
  "rec_terminate (recorder w) \<Longrightarrow> rec_thread (recorder (Recorder_run rd w)) \<noteq> Running"
  by (simp add: Recorder_run_def Let_def enqueue_segment_def write_wav_def)

lemma Transcriber_run_terminate:
  "tr_terminate (transcriber w) \<Longrightarrow> tr_thread (transcriber (Transcriber_run res out w)) \<noteq> Running"
  by (simp add: Transcriber_run_def Let_def)

lemma call_to_inactive:
  assumes "callbacks sm = engine_callbacks" "transition_table (sm_state sm) op = Some INACTIVE"
  shows "step (Call op) (sm, w) =
     (sm\<lparr>sm_state := INACTIVE\<rparr>,
      w\<lparr>recorder := (recorder w)\<lparr>rec_recording := False, rec_terminate := True\<rparr>,
        transcriber := (transcriber w)\<lparr>process_allowed := False, tr_terminate := True\<rparr>\<rparr>)"
  unfolding step_call_engine [OF assms(1)] using assms(2)
  by (simp add: Recorder_handle_state_change_def Transcriber_handle_state_change_def)

section \<open>The lifetime of the workers\<close>

text \<open>
  Claim C5, as amended. The recorder's and the transcriber's loops run until the first
  notification of Inactive. Every call that the transition table sends to Inactive
  (deactivate from Ready, Paused or Recording, stop_app from any state) sets the
  terminate flag of both workers, and no call ever clears it. The next iteration of each
  loop then ends its thread, and a thread that has ended never runs again: whatever
  follows, a later activate and start_recording included, the recorder captures no frame
  and puts nothing on the queue, and the transcriber types nothing.
\<close>

theorem inactive_ends_both_workers:
  assumes "callbacks sm = engine_callbacks"
    and "transition_table (sm_state sm) op = Some INACTIVE"
  shows "rec_terminate (recorder (snd (step (Call op) (sm, w))))
    \<and> tr_terminate (transcriber (snd (step (Call op) (sm, w))))
    \<and> rec_thread (recorder (snd (execute
          (Call op # evs1 @ [RecorderStep rd, TranscriberStep res out]) (sm, w)))) \<noteq> Running
    \<and> tr_thread (transcriber (snd (execute
          (Call op # evs1 @ [RecorderStep rd, TranscriberStep res out]) (sm, w)))) \<noteq> Running
    \<and> rec_thread (recorder (snd (execute
          ((Call op # evs1 @ [RecorderStep rd, TranscriberStep res out]) @ evs2) (sm, w))))
        = rec_thread (recorder (snd (execute
          (Call op # evs1 @ [RecorderStep rd, TranscriberStep res out]) (sm, w))))
    \<and> tr_thread (transcriber (snd (execute
          ((Call op # evs1 @ [RecorderStep rd, TranscriberStep res out]) @ evs2) (sm, w))))
        = tr_thread (transcriber (snd (execute
          (Call op # evs1 @ [RecorderStep rd, TranscriberStep res out]) (sm, w))))
    \<and> frames (recorder (snd (execute
          ((Call op # evs1 @ [RecorderStep rd, TranscriberStep res out]) @ evs2) (sm, w))))
        = frames (recorder (snd (execute
          (Call op # evs1 @ [RecorderStep rd, TranscriberStep res out]) (sm, w))))
    \<and> put_log (snd (execute
          ((Call op # evs1 @ [RecorderStep rd, TranscriberStep res out]) @ evs2) (sm, w)))
        = put_log (snd (execute
          (Call op # evs1 @ [RecorderStep rd, TranscriberStep res out]) (sm, w)))
    \<and> typed (snd (execute
          ((Call op # evs1 @ [RecorderStep rd, TranscriberStep res out]) @ evs2) (sm, w)))
        = typed (snd (execute
          (Call op # evs1 @ [RecorderStep rd, TranscriberStep res out]) (sm, w)))"
proof -
  let ?s1 = "step (Call op) (sm, w)"
  let ?s2 = "execute evs1 ?s1"
  let ?s3 = "execute (Call op # evs1 @ [RecorderStep rd, TranscriberStep res out]) (sm, w)"
  have t1: "rec_terminate (recorder (snd ?s1))" "tr_terminate (transcriber (snd ?s1))"
    "callbacks (fst ?s1) = engine_callbacks"
    unfolding call_to_inactive [OF assms] using assms(1) by simp_all
  have t2: "rec_terminate (recorder (snd ?s2))" "tr_terminate (transcriber (snd ?s2))"
    using execute_keeps_terminate [OF t1(3), of evs1] t1(1,2) by simp_all
  have cb3: "callbacks (fst ?s3) = engine_callbacks"
    using execute_keeps_callbacks [of "Call op # evs1 @ [RecorderStep rd, TranscriberStep res out]"
        "(sm, w)"] assms(1) by simp
  obtain sm2 w2 where s2: "?s2 = (sm2, w2)" by (cases ?s2)
  have s3: "?s3 = (sm2, Transcriber_run res out (Recorder_run rd w2))"
    using s2 by (simp add: execute_append)
  have r3: "rec_thread (recorder (snd ?s3)) \<noteq> Running"
    unfolding s3 using Recorder_run_terminate [of w2 rd] t2(1) s2
    by (simp add: Transcriber_run_frame)
  have q3: "tr_thread (transcriber (snd ?s3)) \<noteq> Running"
    unfolding s3 using Transcriber_run_terminate [of "Recorder_run rd w2" res out] t2(2) s2
    by (simp add: Recorder_run_frame)
  note dr = execute_dead_recorder [OF cb3 r3, of evs2]
  note dt = execute_dead_transcriber [OF cb3 q3, of evs2]
  show ?thesis
    using t1(1,2) r3 q3 dr dt by (simp only: execute_append) simp
qed

theorem inactive_ends_both_workers_witness:
  "\<exists>s0. VoiceTypingEngine_init StateManager_init 0 = Inr s0
     \<and> rec_thread (recorder (snd (execute
          ((Call Deactivate # [] @ [RecorderStep (Inr [1000]), TranscriberStep (Inr ''ola'') None])
            @ [Call Activate, Call StartRecording, RecorderStep (Inr [1000])])
          (execute [Call Activate, Call StartRecording] s0)))) \<noteq> Running
     \<and> tr_thread (transcriber (snd (execute
          ((Call Deactivate # [] @ [RecorderStep (Inr [1000]), TranscriberStep (Inr ''ola'') None])
            @ [Call Activate, Call StartRecording, RecorderStep (Inr [1000])])
          (execute [Call Activate, Call StartRecording] s0)))) \<noteq> Running"
proof -
  obtain s0 where i: "VoiceTypingEngine_init StateManager_init 0 = Inr s0"
    using default_engine by blast
  let ?sm = "\<lparr>sm_state = RECORDING, callbacks = engine_callbacks\<rparr>"
  let ?w = "\<lparr>recorder =
         \<lparr>sample_rate = 48000, chunk_size = 1024, silence_threshold = 300,
          required_silent_chunks = 46,
          rec_terminate = False, rec_recording = True, frames = [],
          silent_chunks = 0, rec_thread = Running\<rparr>,
       transcriber = \<lparr>tr_terminate = False, process_allowed = True, tr_thread = Running\<rparr>,
       audio_queue = [], files = Map.empty, clock = 0, typed = [], put_log = []\<rparr>"
  have h: "callbacks ?sm = engine_callbacks"
    "transition_table (sm_state ?sm) Deactivate = Some INACTIVE"
    by simp_all
  note t = inactive_ends_both_workers [OF h, of ?w "[]" "Inr [1000]" "Inr ''ola''" None
      "[Call Activate, Call StartRecording, RecorderStep (Inr [1000])]"]
  from t have "rec_thread (recorder (snd (execute
          ((Call Deactivate # [] @ [RecorderStep (Inr [1000]), TranscriberStep (Inr ''ola'') None])
            @ [Call Activate, Call StartRecording, RecorderStep (Inr [1000])])
          (?sm, ?w)))) \<noteq> Running
     \<and> tr_thread (transcriber (snd (execute
          ((Call Deactivate # [] @ [RecorderStep (Inr [1000]), TranscriberStep (Inr ''ola'') None])
            @ [Call Activate, Call StartRecording, RecorderStep (Inr [1000])])
          (?sm, ?w)))) \<noteq> Running"
    by metis
  then show ?thesis unfolding default_start [OF i, symmetric] using i by blast
qed

text \<open>
  Claim C5 as stated fails: in the default engine, after activate, start_recording and
  deactivate, one iteration of each loop ends both threads; after a new activate and
  start_recording the state is Recording, both threads are finished, and the chunk
  offered to the recorder is not captured.
\<close>

theorem workers_do_not_survive_inactive:
  "(case VoiceTypingEngine_init StateManager_init 0 of
      Inl e \<Rightarrow> None
    | Inr s0 \<Rightarrow>
        Some (sm_state (fst (execute
                ([Call Activate, Call StartRecording] @ [Call Deactivate,
                  RecorderStep (Inr [1000]), TranscriberStep (Inr ''ola'') None,
                  Call Activate, Call StartRecording, RecorderStep (Inr [1000])]) s0)),
              rec_thread (recorder (snd (execute
                ([Call Activate, Call StartRecording] @ [Call Deactivate,
                  RecorderStep (Inr [1000]), TranscriberStep (Inr ''ola'') None,
                  Call Activate, Call StartRecording, RecorderStep (Inr [1000])]) s0))),
              tr_thread (transcriber (snd (execute
                ([Call Activate, Call StartRecording] @ [Call Deactivate,
                  RecorderStep (Inr [1000]), TranscriberStep (Inr ''ola'') None,
                  Call Activate, Call StartRecording, RecorderStep (Inr [1000])]) s0))),
              frames (recorder (snd (execute
                ([Call Activate, Call StartRecording] @ [Call Deactivate,
                  RecorderStep (Inr [1000]), TranscriberStep (Inr ''ola'') None,
                  Call Activate, Call StartRecording, RecorderStep (Inr [1000])]) s0)))))
     = Some (RECORDING, Finished, Finished, [])"
proof -
  obtain s0 where i: "VoiceTypingEngine_init StateManager_init 0 = Inr s0"
    using default_engine by blast
  have "execute ([Call Activate, Call StartRecording] @ [Call Deactivate,
                  RecorderStep (Inr [1000]), TranscriberStep (Inr ''ola'') None,
                  Call Activate, Call StartRecording, RecorderStep (Inr [1000])]) s0
     = (\<lparr>sm_state = RECORDING, callbacks = engine_callbacks\<rparr>,
        \<lparr>recorder =
         \<lparr>sample_rate = 48000, chunk_size = 1024, silence_threshold = 300,
          required_silent_chunks = 46,
          rec_terminate = True, rec_recording = True, frames = [],
          silent_chunks = 0, rec_thread = Finished\<rparr>,
       transcriber = \<lparr>tr_terminate = True, process_allowed = True, tr_thread = Finished\<rparr>,
       audio_queue = [], files = Map.empty, clock = 0, typed = [], put_log = []\<rparr>)"
    unfolding execute_append default_start [OF i]
    by (simp add: step_call_engine Recorder_handle_state_change_def
        Transcriber_handle_state_change_def Recorder_run_def Transcriber_run_def
        del: step.simps(1))
  with i show ?thesis by simp
qed

section \<open>Pause, resume and flush\<close>










section \<open>What is put on the queue\<close>

lemma step_queue:
  assumes "callbacks sm = engine_callbacks"
  shows "put_log (snd (step e (sm, w))) = put_log w
        \<and> (audio_queue (snd (step e (sm, w))) = audio_queue w
           \<or> (\<exists>p. audio_queue w = p # audio_queue (snd (step e (sm, w)))))
    \<or> (\<exists>seg. seg \<noteq> []
          \<and> put_log (snd (step e (sm, w))) = put_log w @ [seg]
          \<and> audio_queue (snd (step e (sm, w))) = audio_queue w @ [clock w]
          \<and> files (snd (step e (sm, w))) (clock w) = Some seg)"
proof (cases e)
  case (Call op)
  show ?thesis
    unfolding Call step_call_engine [OF assms]
    by (simp split: option.splits)
next
  case (RecorderStep rd)
  with Recorder_run_queue [of rd w] show ?thesis by auto
next
  case (TranscriberStep res out)
  then show ?thesis
    by (simp add: Transcriber_run_def Let_def split: list.splits sum.splits option.splits)
next
  case (Tick n)
  then show ?thesis by simp
qed

lemma step_put_log:
  assumes "callbacks sm = engine_callbacks"
  shows "\<exists>more. put_log (snd (step e (sm, w))) = put_log w @ more \<and> (\<forall>seg \<in> set more. seg \<noteq> [])"
  using step_queue [OF assms, of e w] by auto

lemma execute_put_log:
  assumes "callbacks (fst s) = engine_callbacks"
  shows "\<exists>more. put_log (snd (execute evs s)) = put_log (snd s) @ more
      \<and> (\<forall>seg \<in> set more. seg \<noteq> [])"
  using assms
proof (induction evs arbitrary: s)
  case Nil
  show ?case by simp
next
  case (Cons e evs)
  obtain sm w where s: "s = (sm, w)" by (cases s)
  from Cons.prems s have p: "callbacks sm = engine_callbacks" by simp
  have c: "callbacks (fst (step e s)) = engine_callbacks"
    using step_keeps_callbacks [of e sm w] p s by simp
  obtain m1 where m1: "put_log (snd (step e s)) = put_log (snd s) @ m1"
    "\<forall>seg \<in> set m1. seg \<noteq> []"
    using step_put_log [OF p, of e w] s by auto
  obtain m2 where m2: "put_log (snd (execute evs (step e s))) = put_log (snd (step e s)) @ m2"
    "\<forall>seg \<in> set m2. seg \<noteq> []"
    using Cons.IH [OF c] by blast
  have "put_log (snd (execute (e # evs) s)) = put_log (snd s) @ (m1 @ m2)
      \<and> (\<forall>seg \<in> set (m1 @ m2). seg \<noteq> [])"
    using m1 m2 by auto
  then show ?case by blast
qed

lemma engine_init_callbacks:
  assumes "engine_init StateManager_init sr cs thr dur now = Inr s0"
  shows "callbacks (fst s0) = engine_callbacks" "put_log (snd s0) = []"
    "frames (recorder (snd s0)) = []" "silent_chunks (recorder (snd s0)) = 0"
proof -
  have z: "cs \<noteq> 0"
    using assms by (auto simp: engine_init_def Recorder_init_def)
  from assms engine_init_result [OF z, of sr thr dur now]
  show "callbacks (fst s0) = engine_callbacks" "put_log (snd s0) = []"
    "frames (recorder (snd s0)) = []" "silent_chunks (recorder (snd s0)) = 0"
    by auto
qed

text \<open>
  Claim C9. Whatever the recorder's configuration, the frames read and the schedule of
  transitions and worker steps, every segment that the recorder has put on the queue
  held at least one frame when it was put. Every step of a schedule either leaves the
  queue alone, or takes its head off (the transcriber), or puts one path at its end, and
  then the file of that path holds, at that moment, a list of frames that is not empty:
  this holds at a split and at the final flush alike.
\<close>

theorem no_empty_segment:
  assumes "engine_init StateManager_init sr cs thr dur now = Inr s0"
  shows "(\<forall>seg \<in> set (put_log (snd (execute evs s0))). seg \<noteq> [])
    \<and> (put_log (snd (execute (evs @ [e]) s0)) = put_log (snd (execute evs s0))
          \<and> (audio_queue (snd (execute (evs @ [e]) s0)) = audio_queue (snd (execute evs s0))
             \<or> (\<exists>p. audio_queue (snd (execute evs s0))
                    = p # audio_queue (snd (execute (evs @ [e]) s0))))
        \<or> (\<exists>seg. seg \<noteq> []
              \<and> put_log (snd (execute (evs @ [e]) s0))
                  = put_log (snd (execute evs s0)) @ [seg]
              \<and> audio_queue (snd (execute (evs @ [e]) s0))
                  = audio_queue (snd (execute evs s0)) @ [clock (snd (execute evs s0))]
              \<and> files (snd (execute (evs @ [e]) s0)) (clock (snd (execute evs s0)))
                  = Some seg))"
proof
  note i = engine_init_callbacks [OF assms]
  from execute_put_log [of s0 evs] i(1,2)
  show "\<forall>seg \<in> set (put_log (snd (execute evs s0))). seg \<noteq> []" by auto
  obtain sm w where s: "execute evs s0 = (sm, w)" by (cases "execute evs s0")
  have c: "callbacks sm = engine_callbacks"
    using execute_keeps_callbacks [of evs s0] i(1) s by simp
  from step_queue [OF c, of e w] s
  show "put_log (snd (execute (evs @ [e]) s0)) = put_log (snd (execute evs s0))
          \<and> (audio_queue (snd (execute (evs @ [e]) s0)) = audio_queue (snd (execute evs s0))
             \<or> (\<exists>p. audio_queue (snd (execute evs s0))
                    = p # audio_queue (snd (execute (evs @ [e]) s0))))
        \<or> (\<exists>seg. seg \<noteq> []
              \<and> put_log (snd (execute (evs @ [e]) s0))
                  = put_log (snd (execute evs s0)) @ [seg]
              \<and> audio_queue (snd (execute (evs @ [e]) s0))
                  = audio_queue (snd (execute evs s0)) @ [clock (snd (execute evs s0))]
              \<and> files (snd (execute (evs @ [e]) s0)) (clock (snd (execute evs s0)))
                  = Some seg)"
    by (simp add: execute_append)
qed

theorem no_empty_segment_witness:
  "\<exists>s0. engine_init StateManager_init 48000 1024 300 1 0 = Inr s0
     \<and> put_log (snd (execute
          ([Call Activate, Call StartRecording] @ reads ([1000] # replicate 46 [0])) s0))
        = [[[1000]]]
     \<and> (\<forall>seg \<in> set (put_log (snd (execute
          ([Call Activate, Call StartRecording] @ reads ([1000] # replicate 46 [0])) s0))).
          seg \<noteq> [])"
proof -
  obtain s0 where i: "VoiceTypingEngine_init StateManager_init 0 = Inr s0"
    using default_engine by blast
  then have e: "engine_init StateManager_init 48000 1024 300 1 0 = Inr s0"
    by (simp add: VoiceTypingEngine_init_def)
  have "put_log (snd (execute
          ([Call Activate, Call StartRecording] @ reads ([1000] # replicate 46 [0])) s0))
        = [[[1000]]]"
    unfolding default_first_utterance [OF i] by simp
  with no_empty_segment [OF e, of
      "[Call Activate, Call StartRecording] @ reads ([1000] # replicate 46 [0])" "Tick 0"] e
  show ?thesis by blast
qed

section \<open>The counter and the silent run that ends the buffer\<close>












section \<open>The first segment after a resume\<close>





end
